theory Spec2Isabelle
  imports Complex_Main "HOL-Library.Word"
begin

section \<open>Data model (types/index.ts)\<close>

text \<open>
  JavaScript strings are modelled as \<open>string\<close>: one list element per code unit,
  so that \<open>length\<close> is the source's \<open>.length\<close>.  A \<open>Buffer\<close> is a list of bytes.
\<close>

type_synonym byte = "8 word"
type_synonym buffer = "byte list"

datatype provider = OpenAI | Local

datatype cleanup_model = Gpt41Nano | Gpt41Mini | Gpt41

fun cleanup_model_name :: "cleanup_model \<Rightarrow> string" where
  "cleanup_model_name Gpt41Nano = ''gpt-4.1-nano''"
| "cleanup_model_name Gpt41Mini = ''gpt-4.1-mini''"
| "cleanup_model_name Gpt41 = ''gpt-4.1''"

record TranscriberSettings =
  provider :: provider
  localApiUrl :: string
  language :: string
  enableCleanup :: bool
  cleanupModel :: cleanup_model

text \<open>\<open>Partial<TranscriberSettings>\<close>: every field may be absent.\<close>

record PartialSettings =
  provider_opt :: "provider option"
  localApiUrl_opt :: "string option"
  language_opt :: "string option"
  enableCleanup_opt :: "bool option"
  cleanupModel_opt :: "cleanup_model option"

definition defaultSettings :: TranscriberSettings where
  "defaultSettings =
     \<lparr> provider = OpenAI,
       localApiUrl = ''http://localhost:8000/v1/audio/transcriptions'',
       language = '''',
       enableCleanup = True,
       cleanupModel = Gpt41Nano \<rparr>"

text \<open>The empty object \<open>{}\<close> at type \<open>Partial<TranscriberSettings>\<close>.\<close>

definition emptySettings :: PartialSettings where
  "emptySettings =
     \<lparr> provider_opt = None, localApiUrl_opt = None, language_opt = None,
       enableCleanup_opt = None, cleanupModel_opt = None \<rparr>"

record HistoryEntry =
  entry_id :: string
  date :: string
  entry_text :: string
  preview :: string
  duration :: nat

record RecordingSession =
  startTime :: nat
  audioData :: string
  isPaused :: bool
  elapsedTime :: nat

text \<open>The messages to the webview that the transcription flow posts.\<close>

datatype MessageToWebview =
    TranscriptionStart
  | TranscriptionProgress string
  | TranscriptionComplete string "string option"
  | TranscriptionError string
  | HistoryLoaded "HistoryEntry list"

section \<open>Storage (storageService.ts)\<close>

text \<open>
  The extension context as the storage service sees it: the secret store's entry for
  the API key and the entries of \<open>globalState\<close> under the settings, history and session
  keys.  \<open>None\<close> is a key that was never stored (\<open>globalState.get\<close> then returns its
  default argument).
\<close>

record storage =
  secret_apiKey :: "string option"
  stored_settings :: "PartialSettings option"
  stored_history :: "HistoryEntry list option"
  stored_session :: "RecordingSession option"

definition getApiKey :: "storage \<Rightarrow> string option" where
  "getApiKey st = secret_apiKey st"

text \<open>The object spread \<open>{ ...d, ...s }\<close>: a field present in \<open>s\<close> wins.\<close>

definition spread_settings :: "TranscriberSettings \<Rightarrow> PartialSettings \<Rightarrow> TranscriberSettings" where
  "spread_settings d s =
     \<lparr> provider = (case provider_opt s of Some v \<Rightarrow> v | None \<Rightarrow> provider d),
       localApiUrl = (case localApiUrl_opt s of Some v \<Rightarrow> v | None \<Rightarrow> localApiUrl d),
       language = (case language_opt s of Some v \<Rightarrow> v | None \<Rightarrow> language d),
       enableCleanup = (case enableCleanup_opt s of Some v \<Rightarrow> v | None \<Rightarrow> enableCleanup d),
       cleanupModel = (case cleanupModel_opt s of Some v \<Rightarrow> v | None \<Rightarrow> cleanupModel d) \<rparr>"

definition getSettings :: "storage \<Rightarrow> TranscriberSettings" where
  "getSettings st =
     (let saved = (case stored_settings st of None \<Rightarrow> emptySettings | Some s \<Rightarrow> s)
      in spread_settings defaultSettings saved)"

definition getHistory :: "storage \<Rightarrow> HistoryEntry list" where
  "getHistory st = (case stored_history st of None \<Rightarrow> [] | Some h \<Rightarrow> h)"

text \<open>
  \<open>unshift\<close> puts the entry in front; \<open>pop\<close> removes the last element, and runs only
  when the list has grown beyond ten.
\<close>

definition addToHistory :: "HistoryEntry \<Rightarrow> storage \<Rightarrow> storage" where
  "addToHistory entry st =
     (let history = entry # getHistory st;
          history = (if length history > 10 then butlast history else history)
      in st\<lparr>stored_history := Some history\<rparr>)"

definition clearHistory :: "storage \<Rightarrow> storage" where
  "clearHistory st = st\<lparr>stored_history := Some []\<rparr>"

definition getRecordingSession :: "storage \<Rightarrow> RecordingSession option" where
  "getRecordingSession st = stored_session st"

definition saveRecordingSession :: "RecordingSession option \<Rightarrow> storage \<Rightarrow> storage" where
  "saveRecordingSession session st = st\<lparr>stored_session := session\<rparr>"

text \<open>Inserting a sequence of entries one after the other, the first of the list first.\<close>

fun addAllToHistory :: "HistoryEntry list \<Rightarrow> storage \<Rightarrow> storage" where
  "addAllToHistory [] st = st"
| "addAllToHistory (e # es) st = addAllToHistory es (addToHistory e st)"

text \<open>The storage of a fresh installation, and sample entries.\<close>

definition fresh_storage :: storage where
  "fresh_storage =
     \<lparr> secret_apiKey = None, stored_settings = None, stored_history = None,
       stored_session = None \<rparr>"

definition sample_entry :: "nat \<Rightarrow> HistoryEntry" where
  "sample_entry n =
     \<lparr> entry_id = ''id'', date = ''2024-12-30'', entry_text = ''t'', preview = ''t'',
       duration = n \<rparr>"

section \<open>String helpers\<close>

text \<open>\<open>String.prototype.includes\<close>: does \<open>sub\<close> occur in \<open>s\<close> as a contiguous run?\<close>

fun startsWith :: "string \<Rightarrow> string \<Rightarrow> bool" where
  "startsWith s [] = True"
| "startsWith [] (c # cs) = False"
| "startsWith (x # xs) (c # cs) = (x = c \<and> startsWith xs cs)"

fun includes_str :: "string \<Rightarrow> string \<Rightarrow> bool" where
  "includes_str [] sub = (sub = [])"
| "includes_str (x # xs) sub = (startsWith (x # xs) sub \<or> includes_str xs sub)"

text \<open>The mathematical notion the source's \<open>includes\<close> implements.\<close>

definition occurs_in :: "string \<Rightarrow> string \<Rightarrow> bool" where
  "occurs_in sub s = (\<exists>pre post. s = pre @ sub @ post)"

section \<open>HTTP and the host\<close>

text \<open>
  An outbound request as \<open>fetch\<close> receives it.  The body is either the multipart form
  of the transcription upload or the JSON document of the chat completion.
\<close>

record FormData =
  file_data :: buffer
  file_type :: string
  file_name :: string
  model_field :: string
  language_field :: "string option"

record ChatBody =
  chat_model :: string
  messages :: "(string \<times> string) list"
  temperature :: rat
  max_tokens :: int

datatype request_body = Multipart FormData | JsonBody ChatBody

record request =
  url :: string
  http_method :: string
  headers :: "(string \<times> string) list"
  body :: request_body

text \<open>
  Every \<open>throw\<close> and every rejected promise of the services is a value, with its
  \<open>message\<close>: \<open>Error msg\<close> is \<open>new Error(msg)\<close>, \<open>SyntaxError\<close> is what
  \<open>response.json()\<close> rejects with on a body that is not JSON, \<open>TypeError\<close> is a rejected
  \<open>fetch\<close> or a property read on \<open>undefined\<close>.  All three are instances of \<open>Error\<close>.
\<close>

datatype error = Error string | SyntaxError string | TypeError string

fun message :: "error \<Rightarrow> string" where
  "message (Error m) = m"
| "message (SyntaxError m) = m"
| "message (TypeError m) = m"

text \<open>
  A response, read at the types the source declares for it.  \<open>Ok j\<close> has \<open>response.ok\<close>
  true; \<open>j\<close> is what \<open>response.json()\<close> settles to: \<open>Inr v\<close> with \<open>v\<close> at the declared
  success type, \<open>Inl e\<close> when it rejects.  \<open>NotOk status j\<close> has \<open>response.ok\<close> false;
  \<open>j\<close> is the body read as \<open>{ error?: { message?: string } }\<close>: \<open>None\<close> when \<open>json()\<close>
  rejects, \<open>Some None\<close> when the message is absent, \<open>Some (Some m)\<close> when it is \<open>m\<close>.
\<close>

datatype 'a response = Ok "error + 'a" | NotOk nat "string option option"

text \<open>
  The upstream service: what \<open>fetch\<close> settles to for a request, given the requests sent
  before it.  \<open>Inl e\<close> is a rejected \<open>fetch\<close>.
\<close>

type_synonym 'a server = "request list \<Rightarrow> request \<Rightarrow> error + 'a response"

text \<open>What the panel shows: messages posted to the webview, warning and error popups.\<close>

record ui =
  posted :: "MessageToWebview list"
  warnings :: "string list"
  errors_shown :: "string list"

record world =
  store :: storage
  sent :: "request list"
  display :: ui

definition fetch :: "'a server \<Rightarrow> request \<Rightarrow> world \<Rightarrow> (error + 'a response) \<times> world" where
  "fetch srv req w = (srv (sent w) req, w\<lparr>sent := sent w @ [req]\<rparr>)"

text \<open>JavaScript truthiness of a \<open>string | undefined\<close>.\<close>

fun truthy :: "string option \<Rightarrow> bool" where
  "truthy None = False"
| "truthy (Some s) = (s \<noteq> [])"

text \<open>\<open>a || b\<close> at type \<open>string | undefined\<close> with a string \<open>b\<close>.\<close>

fun or_else :: "string option \<Rightarrow> string \<Rightarrow> string" where
  "or_else None d = d"
| "or_else (Some s) d = (if s = [] then d else s)"

text \<open>Decimal rendering of a number in a template literal.\<close>

text \<open>The digit \<open>d\<close>, for \<open>d < 10\<close>.\<close>

definition digit_char :: "nat \<Rightarrow> char" where
  "digit_char d = ''0123456789'' ! d"

function string_of_nat :: "nat \<Rightarrow> string" where
  "string_of_nat n =
     (if n < 10 then [digit_char n] else string_of_nat (n div 10) @ [digit_char (n mod 10)])"
  by pat_completeness auto
termination
  by (relation "measure id") auto

declare string_of_nat.simps [simp del]

text \<open>\<open>Array.prototype.join\<close> on an array of strings.\<close>

fun join :: "string \<Rightarrow> string list \<Rightarrow> string" where
  "join sep [] = []"
| "join sep [x] = x"
| "join sep (x # y # ys) = x @ sep @ join sep (y # ys)"

section \<open>Transcription client (whisperService.ts)\<close>

definition getExtension :: "string \<Rightarrow> string" where
  "getExtension mimeType =
     (if includes_str mimeType ''mp3'' \<or> includes_str mimeType ''mpeg'' then ''mp3''
      else if includes_str mimeType ''webm'' then ''webm''
      else if includes_str mimeType ''wav'' then ''wav''
      else if includes_str mimeType ''ogg'' then ''ogg''
      else ''mp3'')"

definition MAX_FILE_SIZE :: nat where
  "MAX_FILE_SIZE = 24 * 1024 * 1024"

text \<open>\<open>buffer.subarray(start, end)\<close> for \<open>start \<le> end \<le> buffer.length\<close>.\<close>

definition subarray :: "'a list \<Rightarrow> nat \<Rightarrow> nat \<Rightarrow> 'a list" where
  "subarray buf start end = take (end - start) (drop start buf)"

text \<open>
  The \<open>while\<close> loop of \<open>splitBuffer\<close>, with its two variables as arguments.  With a chunk
  size of zero the offset never moves and the loop does not end: the result \<open>None\<close>.
\<close>

partial_function (option) splitBuffer_loop ::
  "'a list \<Rightarrow> nat \<Rightarrow> nat \<Rightarrow> 'a list list \<Rightarrow> 'a list list option" where
  "splitBuffer_loop buf chunkSize offset chunks =
     (if offset < length buf then
        (let end = min (offset + chunkSize) (length buf)
         in splitBuffer_loop buf chunkSize end (chunks @ [subarray buf offset end]))
      else Some chunks)"

definition splitBuffer :: "'a list \<Rightarrow> nat \<Rightarrow> 'a list list option" where
  "splitBuffer buf chunkSize = splitBuffer_loop buf chunkSize 0 []"

definition transcribeSingle ::
  "string server \<Rightarrow> buffer \<Rightarrow> string \<Rightarrow> TranscriberSettings \<Rightarrow> string option \<Rightarrow> world
     \<Rightarrow> (error + string) \<times> world" where
  "transcribeSingle srv audioBuffer mimeType settings apiKey w =
     (let extension = getExtension mimeType;
          formData =
            \<lparr> file_data = audioBuffer, file_type = mimeType,
              file_name = ''audio.'' @ extension, model_field = ''whisper-1'',
              language_field =
                (if language settings \<noteq> [] then Some (language settings) else None) \<rparr>;
          url =
            (if provider settings = OpenAI
             then ''https://api.openai.com/v1/audio/transcriptions''
             else localApiUrl settings);
          headers =
            (case apiKey of
               Some k \<Rightarrow>
                 (if k \<noteq> [] \<and> provider settings = OpenAI
                  then [(''Authorization'', ''Bearer '' @ k)] else [])
             | None \<Rightarrow> []);
          (response, w') =
            fetch srv
              \<lparr> url = url, http_method = ''POST'', headers = headers,
                body = Multipart formData \<rparr> w
      in case response of
           Inl e \<Rightarrow> (Inl e, w')
         | Inr (NotOk status errorData) \<Rightarrow>
             (let message = (case errorData of None \<Rightarrow> None | Some m \<Rightarrow> m);
                  errorMessage =
                    or_else message (''Transcription failed with status '' @ string_of_nat status)
              in (Inl (Error errorMessage), w'))
         | Inr (Ok (Inl e)) \<Rightarrow> (Inl e, w')
         | Inr (Ok (Inr text)) \<Rightarrow> (Inr text, w'))"

text \<open>
  The \<open>for\<close> loop of \<open>transcribeChunked\<close> over the chunks from index \<open>i\<close> on: \<open>len\<close> is
  \<open>chunks.length\<close>, \<open>transcriptions\<close> the texts pushed so far.  The callback, when
  given, acts on what the host displays.
\<close>

fun transcribeChunked_loop ::
  "string server \<Rightarrow> string \<Rightarrow> TranscriberSettings \<Rightarrow> string option
     \<Rightarrow> (string \<Rightarrow> ui \<Rightarrow> ui) option \<Rightarrow> nat \<Rightarrow> buffer list \<Rightarrow> nat \<Rightarrow> string list \<Rightarrow> world
     \<Rightarrow> (error + string list) \<times> world" where
  "transcribeChunked_loop srv mimeType settings apiKey onProgress len [] i transcriptions w =
     (Inr transcriptions, w)"
| "transcribeChunked_loop srv mimeType settings apiKey onProgress len (chunk # rest) i
     transcriptions w =
     (let w1 =
            (case onProgress of
               Some f \<Rightarrow>
                 w\<lparr>display :=
                     f (''Processing chunk '' @ string_of_nat (i + 1) @ ''/''
                        @ string_of_nat len @ ''...'') (display w)\<rparr>
             | None \<Rightarrow> w)
      in case transcribeSingle srv chunk mimeType settings apiKey w1 of
           (Inl e, w2) \<Rightarrow> (Inl e, w2)
         | (Inr text, w2) \<Rightarrow>
             transcribeChunked_loop srv mimeType settings apiKey onProgress len rest (i + 1)
               (transcriptions @ [text]) w2)"

definition transcribeChunked ::
  "string server \<Rightarrow> buffer \<Rightarrow> string \<Rightarrow> TranscriberSettings \<Rightarrow> string option
     \<Rightarrow> (string \<Rightarrow> ui \<Rightarrow> ui) option \<Rightarrow> world \<Rightarrow> ((error + string) \<times> world) option" where
  "transcribeChunked srv audioBuffer mimeType settings apiKey onProgress w =
     (case splitBuffer audioBuffer MAX_FILE_SIZE of
        None \<Rightarrow> None
      | Some chunks \<Rightarrow>
          (case transcribeChunked_loop srv mimeType settings apiKey onProgress
                  (length chunks) chunks 0 [] w of
             (Inl e, w') \<Rightarrow> Some (Inl e, w')
           | (Inr transcriptions, w') \<Rightarrow> Some (Inr (join '' '' transcriptions), w')))"

text \<open>\<open>None\<close> is a call that never returns; every other outcome is \<open>Some\<close>.\<close>

definition transcribe ::
  "string server \<Rightarrow> buffer \<Rightarrow> string \<Rightarrow> TranscriberSettings \<Rightarrow> (string \<Rightarrow> ui \<Rightarrow> ui) option
     \<Rightarrow> world \<Rightarrow> ((error + string) \<times> world) option" where
  "transcribe srv audioBuffer mimeType settings onProgress w =
     (let apiKey = getApiKey (store w)
      in if provider settings = OpenAI \<and> \<not> truthy apiKey
         then Some (Inl (Error ''Please enter your OpenAI API key in Settings.''), w)
         else if length audioBuffer > MAX_FILE_SIZE
         then transcribeChunked srv audioBuffer mimeType settings apiKey onProgress w
         else Some (transcribeSingle srv audioBuffer mimeType settings apiKey w))"

section \<open>Cleanup client (openaiService.ts)\<close>

definition baseUrl :: string where
  "baseUrl = ''https://api.openai.com/v1''"

definition cleanup_system_prompt :: string where
  "cleanup_system_prompt =
     ''You are a text cleanup assistant. Clean up the following transcribed speech:\<newline>''
     @ ''\<newline>''
     @ ''1. Remove filler words and verbal tics (um, uh, like, you know, I mean, so, basically, etc.)\<newline>''
     @ ''2. Remove repeated words and stutters\<newline>''
     @ ''3. Fix punctuation and capitalization\<newline>''
     @ ''4. Split into logical paragraphs\<newline>''
     @ ''5. Keep the original meaning and tone intact\<newline>''
     @ ''6. Output ONLY plain text - no markdown, no headers, no bullet points\<newline>''
     @ ''\<newline>''
     @ ''Return only the cleaned text, nothing else.''"

text \<open>
  \<open>Math.ceil(rawText.length * 1.5) + 500\<close>.  The product is exact in double precision
  for every length a string can have, so it is computed over the rationals.
\<close>

definition cleanup_max_tokens :: "string \<Rightarrow> int" where
  "cleanup_max_tokens rawText = \<lceil>(of_nat (length rawText) :: rat) * (3 / 2)\<rceil> + 500"

text \<open>
  The body of the success response is read as
  \<open>{ choices: Array<{ message: { content: string } }> }\<close>: the list of the choices'
  contents.  \<open>choices[0]\<close> of an empty array is \<open>undefined\<close>, and reading its \<open>message\<close>
  throws.  The optional parameter \<open>model\<close> is \<open>None\<close> when the caller leaves it out.
\<close>

definition cleanupText ::
  "string list server \<Rightarrow> string \<Rightarrow> string option \<Rightarrow> world \<Rightarrow> (error + string) \<times> world" where
  "cleanupText srv rawText model_arg w =
     (let model = (case model_arg of None \<Rightarrow> ''gpt-4o-mini'' | Some m \<Rightarrow> m);
          apiKey = getApiKey (store w)
      in case apiKey of
           None \<Rightarrow> (Inl (Error ''OpenAI API key required for text cleanup''), w)
         | Some k \<Rightarrow>
             if k = [] then (Inl (Error ''OpenAI API key required for text cleanup''), w)
             else
               (let (response, w') =
                      fetch srv
                        \<lparr> url = baseUrl @ ''/chat/completions'', http_method = ''POST'',
                          headers =
                            [(''Authorization'', ''Bearer '' @ k),
                             (''Content-Type'', ''application/json'')],
                          body =
                            JsonBody
                              \<lparr> chat_model = model,
                                messages =
                                  [(''system'', cleanup_system_prompt), (''user'', rawText)],
                                temperature = 3 / 10,
                                max_tokens = cleanup_max_tokens rawText \<rparr> \<rparr> w
                in case response of
                     Inl e \<Rightarrow> (Inl e, w')
                   | Inr (NotOk status errorData) \<Rightarrow>
                       (let message = (case errorData of None \<Rightarrow> None | Some m \<Rightarrow> m);
                            errorMessage =
                              or_else message
                                (''Cleanup failed with status '' @ string_of_nat status)
                        in (Inl (Error errorMessage), w'))
                   | Inr (Ok (Inl e)) \<Rightarrow> (Inl e, w')
                   | Inr (Ok (Inr choices)) \<Rightarrow>
                       (case choices of
                          [] \<Rightarrow>
                            (Inl (TypeError
                                    ''Cannot read properties of undefined (reading 'message')''),
                             w')
                        | content # _ \<Rightarrow> (Inr content, w'))))"

section \<open>Orchestrator (VoiceTranscriberPanel.ts)\<close>

definition postMessage :: "MessageToWebview \<Rightarrow> world \<Rightarrow> world" where
  "postMessage m w = w\<lparr>display := (display w)\<lparr>posted := posted (display w) @ [m]\<rparr>\<rparr>"

definition showWarningMessage :: "string \<Rightarrow> world \<Rightarrow> world" where
  "showWarningMessage m w = w\<lparr>display := (display w)\<lparr>warnings := warnings (display w) @ [m]\<rparr>\<rparr>"

definition showErrorMessage :: "string \<Rightarrow> world \<Rightarrow> world" where
  "showErrorMessage m w =
     w\<lparr>display := (display w)\<lparr>errors_shown := errors_shown (display w) @ [m]\<rparr>\<rparr>"

text \<open>The progress callback that the panel hands to \<open>transcribe\<close>.\<close>

definition post_progress :: "string \<Rightarrow> ui \<Rightarrow> ui" where
  "post_progress progress d = d\<lparr>posted := posted d @ [TranscriptionProgress progress]\<rparr>"

text \<open>
  \<open>_handleTranscription\<close>.  \<open>decode\<close> is \<open>Buffer.from(_, 'base64')\<close>.  The outer \<open>catch\<close>
  is reached by a failing \<open>transcribe\<close> only: the failure of \<open>cleanupText\<close> is caught by
  the inner one, which leaves \<open>cleanedText\<close> undefined.  A caught value is always an
  \<open>Error\<close> here, so the handler takes its message.
\<close>

definition handleTranscription ::
  "string server \<Rightarrow> string list server \<Rightarrow> (string \<Rightarrow> buffer) \<Rightarrow> string \<Rightarrow> string \<Rightarrow> world
     \<Rightarrow> world option" where
  "handleTranscription whisper openai decode audio mimeType w0 =
     (let w1 = postMessage TranscriptionStart w0;
          settings = getSettings (store w1);
          audioBuffer = decode audio;
          w2 = postMessage (TranscriptionProgress ''Transcribing audio...'') w1
      in case transcribe whisper audioBuffer mimeType settings (Some post_progress) w2 of
           None \<Rightarrow> None
         | Some (Inl error, w3) \<Rightarrow>
             Some (showErrorMessage (message error)
                     (postMessage (TranscriptionError (message error)) w3))
         | Some (Inr rawText, w3) \<Rightarrow>
             (let (cleanedText, w5) =
                    (if enableCleanup settings \<and> provider settings = OpenAI then
                       (let w4 = postMessage (TranscriptionProgress ''Cleaning up text...'') w3
                        in case cleanupText openai rawText
                                  (Some (cleanup_model_name (cleanupModel settings))) w4 of
                             (Inr cleaned, w') \<Rightarrow> (Some cleaned, w')
                           | (Inl _, w') \<Rightarrow>
                               (None,
                                showWarningMessage
                                  ''Text cleanup failed. Showing original transcription.'' w'))
                     else (None, w3));
                  w6 = postMessage (TranscriptionComplete rawText cleanedText) w5
              in Some (w6\<lparr>store := saveRecordingSession None (store w6)\<rparr>)))"

section \<open>Native recorder (audioRecorderService.ts)\<close>

text \<open>
  What \<open>cancel\<close> touches of the operating system: the paths that exist on disk, the
  paths whose removal the system refuses (\<open>unlinkSync\<close> throws for them, as for a file
  in a directory without write permission), the recorder processes that are still
  running, and the signals delivered so far.
\<close>

record os =
  files :: "string set"
  undeletable :: "string set"
  running :: "nat set"
  signals :: "(nat \<times> string) list"

text \<open>The fields of the service; \<open>process\<close> holds the child's process id.\<close>

record AudioRecorderService =
  process :: "nat option"
  tempFile :: "string option"
  isRecording :: bool
  startTime' :: int

definition existsSync :: "string \<Rightarrow> os \<Rightarrow> bool" where
  "existsSync path s = (path \<in> files s)"

definition unlinkSync :: "string \<Rightarrow> os \<Rightarrow> error + os" where
  "unlinkSync path s =
     (if path \<notin> files s then Inl (Error ''ENOENT: no such file or directory'')
      else if path \<in> undeletable s then Inl (Error ''EPERM: operation not permitted'')
      else Inr (s\<lparr>files := files s - {path}\<rparr>))"

text \<open>\<open>child.kill(signal)\<close>: a child that has exited receives nothing.\<close>

definition kill :: "nat \<Rightarrow> string \<Rightarrow> os \<Rightarrow> os" where
  "kill pid signal s =
     (if pid \<in> running s
      then s\<lparr>signals := signals s @ [(pid, signal)],
             running := (if signal = ''SIGKILL'' then running s - {pid} else running s)\<rparr>
      else s)"

definition cleanup :: "AudioRecorderService \<Rightarrow> AudioRecorderService" where
  "cleanup r = r\<lparr>process := None, tempFile := None, isRecording := False, startTime' := 0\<rparr>"

text \<open>\<open>cancel\<close> returns nothing; the \<open>catch\<close> around \<open>unlinkSync\<close> drops its error.\<close>

definition cancel :: "AudioRecorderService \<times> os \<Rightarrow> AudioRecorderService \<times> os" where
  "cancel = (\<lambda>(r, s).
     (let s1 = (case process r of Some pid \<Rightarrow> kill pid ''SIGKILL'' s | None \<Rightarrow> s);
          s2 =
            (case tempFile r of
               Some path \<Rightarrow>
                 (if path \<noteq> [] \<and> existsSync path s1 then
                    (case unlinkSync path s1 of
                       Inr s' \<Rightarrow> s'
                     | Inl _ \<Rightarrow> s1)
                  else s1)
             | None \<Rightarrow> s1)
      in (cleanup r, s2)))"

text \<open>\<open>now\<close> is the value of \<open>Date.now()\<close>.\<close>

definition getElapsedTime :: "AudioRecorderService \<Rightarrow> int \<Rightarrow> int" where
  "getElapsedTime r now = (if \<not> isRecording r then 0 else now - startTime' r)"

definition getIsRecording :: "AudioRecorderService \<Rightarrow> bool" where
  "getIsRecording r = isRecording r"

section \<open>Notions used to state the properties\<close>

text \<open>
  Cutting a list into consecutive pieces of \<open>n\<close> elements, the last one possibly
  shorter: the partition that the chunked path is specified to produce.
\<close>

function slices :: "nat \<Rightarrow> 'a list \<Rightarrow> 'a list list" where
  "slices n xs = (if xs = [] \<or> n = 0 then [] else take n xs # slices n (drop n xs))"
  by pat_completeness auto
termination
  by (relation "measure (\<lambda>(n, xs). length xs)") auto

declare slices.simps [simp del]

text \<open>
  The upload of the single path, as specified: a POST of the multipart form with the
  buffer as file \<open>audio.<ext>\<close>, the fixed model, the language hint when it is not
  empty, to the hosted endpoint with a bearer header or to the configured local one.
\<close>

definition whisper_request ::
  "buffer \<Rightarrow> string \<Rightarrow> TranscriberSettings \<Rightarrow> string option \<Rightarrow> request" where
  "whisper_request audioBuffer mimeType settings apiKey =
     \<lparr> url =
         (if provider settings = OpenAI
          then ''https://api.openai.com/v1/audio/transcriptions''
          else localApiUrl settings),
       http_method = ''POST'',
       headers =
         (if truthy apiKey \<and> provider settings = OpenAI
          then [(''Authorization'', ''Bearer '' @ the apiKey)] else []),
       body =
         Multipart
           \<lparr> file_data = audioBuffer, file_type = mimeType,
             file_name = ''audio.'' @ getExtension mimeType, model_field = ''whisper-1'',
             language_field =
               (if language settings = [] then None else Some (language settings)) \<rparr> \<rparr>"

text \<open>
  The chat-completion request of the cleanup, as specified: the fixed system
  instruction, the raw transcript as the user turn, temperature 0.3 and the token
  budget, posted with the bearer credential.
\<close>

definition cleanup_request :: "string \<Rightarrow> string \<Rightarrow> string \<Rightarrow> request" where
  "cleanup_request k model rawText =
     \<lparr> url = ''https://api.openai.com/v1/chat/completions'', http_method = ''POST'',
       headers =
         [(''Authorization'', ''Bearer '' @ k), (''Content-Type'', ''application/json'')],
       body =
         JsonBody
           \<lparr> chat_model = model,
             messages = [(''system'', cleanup_system_prompt), (''user'', rawText)],
             temperature = 3 / 10,
             max_tokens = cleanup_max_tokens rawText \<rparr> \<rparr>"

section \<open>Sample inputs\<close>

definition empty_ui :: ui where
  "empty_ui = \<lparr> posted = [], warnings = [], errors_shown = [] \<rparr>"

text \<open>A host with a stored credential and nothing sent yet, and one without credential.\<close>

definition world_with_key :: world where
  "world_with_key =
     \<lparr> store = fresh_storage\<lparr>secret_apiKey := Some ''sk-test''\<rparr>, sent = [],
       display = empty_ui \<rparr>"

definition world_without_key :: world where
  "world_without_key = \<lparr> store = fresh_storage, sent = [], display = empty_ui \<rparr>"

text \<open>An upstream that answers the first request with \<open>foo\<close> and every later one with \<open>bar\<close>.\<close>

definition foo_bar_server :: "string server" where
  "foo_bar_server hist req =
     (if hist = [] then Inr (Ok (Inr ''foo'')) else Inr (Ok (Inr ''bar'')))"

text \<open>An upstream that answers every request with status 200 and \<open>{"text":"hello world"}\<close>.\<close>

definition hello_server :: "string server" where
  "hello_server hist req = Inr (Ok (Inr ''hello world''))"

text \<open>An upstream that answers the first request with a text and fails the second with status 500.\<close>

definition failing_server :: "string server" where
  "failing_server hist req =
     (if hist = [] then Inr (Ok (Inr ''foo'')) else Inr (NotOk 500 (Some (Some ''boom''))))"

definition thirty_MiB :: buffer where
  "thirty_MiB = replicate (30 * 1024 * 1024) 0"

definition ten_bytes :: buffer where
  "ten_bytes = [82, 73, 70, 70, 2, 0, 0, 0, 87, 65]"

text \<open>A chat endpoint that answers with two choices, and one that is down.\<close>

definition tidy_server :: "string list server" where
  "tidy_server hist req = Inr (Ok (Inr [''Hello, world.'', ''Hello world!'']))"

definition down_server :: "string list server" where
  "down_server hist req = Inr (NotOk 503 None)"

text \<open>A host with a credential and the snapshot of an interrupted recording.\<close>

definition world_with_session :: world where
  "world_with_session =
     world_with_key
       \<lparr>store :=
          (store world_with_key)
            \<lparr>stored_session :=
               Some \<lparr> startTime = 1735550000000, audioData = ''UklGRg=='', isPaused = False,
                      elapsedTime = 4200 \<rparr>\<rparr>\<rparr>"

text \<open>
  A recording in progress, with its file written, on a system that lets the file go
  and on one that refuses to remove it; and the same after the recorder has exited.
\<close>

definition active_recorder :: AudioRecorderService where
  "active_recorder =
     \<lparr> process = Some 4242, tempFile = Some ''/tmp/voice-transcriber-1735550000000.wav'',
       isRecording = True, startTime' = 1735550000100 \<rparr>"

definition plain_os :: os where
  "plain_os =
     \<lparr> files = {''/tmp/voice-transcriber-1735550000000.wav'', ''/tmp/other.txt''},
       undeletable = {}, running = {4242}, signals = [] \<rparr>"

definition refusing_os :: os where
  "refusing_os = plain_os\<lparr>undeletable := {''/tmp/voice-transcriber-1735550000000.wav''}\<rparr>"

definition exited_os :: os where
  "exited_os = plain_os\<lparr>running := {}\<rparr>"

section \<open>Properties\<close>

subsection \<open>Substring search\<close>

lemma startsWith_iff: "startsWith s sub \<longleftrightarrow> (\<exists>post. s = sub @ post)"
  by (induction s sub rule: startsWith.induct) auto

lemma includes_iff: "includes_str s sub \<longleftrightarrow> occurs_in sub s"
proof (induction s)
  case Nil
  then show ?case by (auto simp: occurs_in_def)
next
  case (Cons x xs)
  have "occurs_in sub (x # xs) \<longleftrightarrow> (\<exists>post. x # xs = sub @ post) \<or> occurs_in sub xs"
  proof
    assume "occurs_in sub (x # xs)"
    then obtain pre post where eq: "x # xs = pre @ sub @ post"
      by (auto simp: occurs_in_def)
    show "(\<exists>post. x # xs = sub @ post) \<or> occurs_in sub xs"
    proof (cases pre)
      case Nil
      with eq show ?thesis by auto
    next
      case (Cons p ps)
      with eq have "xs = ps @ sub @ post" by simp
      then show ?thesis by (auto simp: occurs_in_def)
    qed
  next
    assume "(\<exists>post. x # xs = sub @ post) \<or> occurs_in sub xs"
    then show "occurs_in sub (x # xs)"
    proof
      assume "\<exists>post. x # xs = sub @ post"
      then obtain post where "x # xs = [] @ sub @ post" by auto
      then show ?thesis unfolding occurs_in_def by blast
    next
      assume "occurs_in sub xs"
      then obtain pre post where "xs = pre @ sub @ post" by (auto simp: occurs_in_def)
      then have "x # xs = (x # pre) @ sub @ post" by simp
      then show ?thesis unfolding occurs_in_def by blast
    qed
  qed
  with Cons show ?case by (simp add: startsWith_iff)
qed


subsection \<open>Splitting a buffer\<close>

lemma splitBuffer_loop_slices:
  "0 < chunkSize \<Longrightarrow>
   splitBuffer_loop buf chunkSize offset chunks = Some (chunks @ slices chunkSize (drop offset buf))"
proof (induction "length buf - offset" arbitrary: offset chunks rule: less_induct)
  case less
  show ?case
  proof (cases "offset < length buf")
    case False
    then show ?thesis
      by (subst splitBuffer_loop.simps) (simp add: slices.simps)
  next
    case True
    let ?e = "min (offset + chunkSize) (length buf)"
    have lt: "length buf - ?e < length buf - offset"
      using True less.prems by (auto simp: min_def)
    have sub: "subarray buf offset ?e = take chunkSize (drop offset buf)"
      using True by (auto simp: subarray_def min_def)
    have dr: "drop ?e buf = drop chunkSize (drop offset buf)"
      using True by (auto simp: min_def add.commute)
    have "splitBuffer_loop buf chunkSize offset chunks =
          splitBuffer_loop buf chunkSize ?e (chunks @ [subarray buf offset ?e])"
      using True by (subst splitBuffer_loop.simps) (simp add: Let_def)
    also have "\<dots> = Some ((chunks @ [subarray buf offset ?e]) @ slices chunkSize (drop ?e buf))"
      using less.hyps [OF lt less.prems] .
    also have "\<dots> = Some (chunks @ slices chunkSize (drop offset buf))"
      using True less.prems
      by (subst (2) slices.simps) (simp add: sub dr)
    finally show ?thesis .
  qed
qed

lemma concat_slices: "0 < n \<Longrightarrow> concat (slices n xs) = xs"
  by (induction n xs rule: slices.induct) (subst slices.simps, auto)

lemma length_slices: "0 < n \<Longrightarrow> length (slices n xs) = (length xs + n - 1) div n"
proof (induction n xs rule: slices.induct)
  case (1 n xs)
  show ?case
  proof (cases "xs = []")
    case True
    then show ?thesis using 1(2) by (subst slices.simps) simp
  next
    case False
    then have pos: "0 < length xs" by simp
    have eq: "slices n xs = take n xs # slices n (drop n xs)"
      using False 1(2) by (subst slices.simps) simp
    have ih: "length (slices n (drop n xs)) = (length xs - n + n - 1) div n"
      using 1(1) False 1(2) by simp
    have "(length xs + n - 1) div n = (length xs - n + n - 1) div n + 1"
    proof (cases "n \<le> length xs")
      case True
      then have "length xs + n - 1 = n + (length xs - n + n - 1)"
        using 1(2) by arith
      then show ?thesis using 1(2) by (simp only: div_add_self1)
    next
      case small: False
      then have "length xs + n - 1 = n + (length xs - 1)" and "length xs - 1 < n"
        and "length xs - n + n - 1 < n"
        using pos by arith+
      then show ?thesis using 1(2) by (simp only: div_add_self1 div_less)
    qed
    then show ?thesis using eq ih by simp
  qed
qed

lemma nth_slices:
  "0 < n \<Longrightarrow> i < length (slices n xs) \<Longrightarrow> slices n xs ! i = take n (drop (i * n) xs)"
proof (induction n xs arbitrary: i rule: slices.induct)
  case (1 n xs)
  from 1(3) have ne: "xs \<noteq> []" by (subst (asm) slices.simps) auto
  have eq: "slices n xs = take n xs # slices n (drop n xs)"
    using ne 1(2) by (subst slices.simps) simp
  show ?case
  proof (cases i)
    case 0
    then show ?thesis by (simp add: eq)
  next
    case (Suc j)
    then have "j < length (slices n (drop n xs))" using 1(3) eq by simp
    then have "slices n (drop n xs) ! j = take n (drop (j * n) (drop n xs))"
      using 1(1) ne 1(2) by simp
    then show ?thesis using Suc eq by (simp add: add.commute)
  qed
qed

lemma ceiling_div_nat:
  assumes "0 < n"
  shows "\<lceil>real m / real n\<rceil> = int ((m + n - 1) div n)"
proof -
  define q where "q = (m + n - 1) div n"
  have "q * n \<le> m + n - 1" unfolding q_def by simp
  then have lo: "q * n < m + n" using assms by arith
  have "m + n - 1 < n + q * n"
    unfolding q_def using assms by (rule dividend_less_div_times)
  then have hi: "m \<le> q * n" using assms by arith
  have "real (q * n) < real (m + n)" using lo by (simp only: of_nat_less_iff)
  then have a: "real q - 1 < real m / real n"
    using assms by (simp add: field_simps)
  have "real m \<le> real (q * n)" using hi by (simp only: of_nat_le_iff)
  then have b: "real m / real n \<le> real q"
    using assms by (simp add: field_simps)
  have "\<lceil>real m / real n\<rceil> = int q"
    by (rule ceiling_unique) (use a b in simp_all)
  then show ?thesis by (simp add: q_def)
qed

lemma slices_index_bound:
  assumes "0 < n" "i < length (slices n xs)"
  shows "i * n < length xs"
proof -
  have "Suc i \<le> (length xs + n - 1) div n"
    using assms by (simp add: length_slices)
  then have "Suc i * n \<le> length xs + n - 1"
    using assms(1) by (simp only: less_eq_div_iff_mult_less_eq)
  then show ?thesis using assms(1) by simp
qed

lemma slices_length_le: "0 < n \<Longrightarrow> i < length (slices n xs) \<Longrightarrow> length (slices n xs ! i) \<le> n"
  by (simp add: nth_slices)

lemma slices_nonempty: "0 < n \<Longrightarrow> i < length (slices n xs) \<Longrightarrow> slices n xs ! i \<noteq> []"
  using slices_index_bound [of n i xs] by (simp add: nth_slices)

lemma slices_full:
  assumes "0 < n" "Suc i < length (slices n xs)"
  shows "length (slices n xs ! i) = n"
proof -
  have "Suc i * n < length xs" using assms by (rule slices_index_bound)
  then have "n \<le> length xs - i * n" by simp
  moreover have "i < length (slices n xs)" using assms(2) by simp
  ultimately show ?thesis using assms(1) by (simp add: nth_slices)
qed

text \<open>With a chunk size of zero the loop of \<open>splitBuffer\<close> never returns.\<close>

lemma splitBuffer_loop_zero:
  assumes "splitBuffer_loop buf chunkSize offset chunks = Some y"
  shows "\<not> (chunkSize = 0 \<and> offset < length buf)"
proof (rule splitBuffer_loop.raw_induct
    [where P = "\<lambda>buf chunkSize offset chunks y. \<not> (chunkSize = 0 \<and> offset < length buf)",
     OF _ assms])
  fix loop :: "'a list \<Rightarrow> nat \<Rightarrow> nat \<Rightarrow> 'a list list \<Rightarrow> 'a list list option"
  fix buf chunkSize offset chunks y
  assume ih: "\<And>buf chunkSize offset chunks y.
      loop buf chunkSize offset chunks = Some y \<Longrightarrow> \<not> (chunkSize = 0 \<and> offset < length buf)"
    and step: "(if offset < length buf
      then let end = min (offset + chunkSize) (length buf)
           in loop buf chunkSize end (chunks @ [subarray buf offset end])
      else Some chunks) = Some y"
  show "\<not> (chunkSize = 0 \<and> offset < length buf)"
  proof
    assume z: "chunkSize = 0 \<and> offset < length buf"
    then have "loop buf chunkSize offset (chunks @ [subarray buf offset offset]) = Some y"
      using step by (simp add: Let_def)
    from ih [OF this] z show False by simp
  qed
qed

lemma splitBuffer_zero: "buf \<noteq> [] \<Longrightarrow> splitBuffer buf 0 = None"
  using splitBuffer_loop_zero [of buf 0 0 "[]"]
  by (cases "splitBuffer buf 0") (auto simp: splitBuffer_def)

subsection \<open>The single path\<close>

lemma whisper_headers:
  "(case key of
      Some k \<Rightarrow>
        (if k \<noteq> [] \<and> provider st = OpenAI
         then [(''Authorization'', ''Bearer '' @ k)] else [])
    | None \<Rightarrow> []) =
   (if truthy key \<and> provider st = OpenAI
    then [(''Authorization'', ''Bearer '' @ the key)] else [])"
  by (cases key) simp_all

lemma whisper_language:
  "(if language st \<noteq> [] then Some (language st) else None) =
   (if language st = [] then None else Some (language st))"
  by simp

lemma response_cases:
  "(case r of
      Inl e \<Rightarrow> (Inl e, w')
    | Inr (NotOk status errorData) \<Rightarrow> (Inl (f status errorData), w')
    | Inr (Ok (Inl e)) \<Rightarrow> (Inl e, w')
    | Inr (Ok (Inr t)) \<Rightarrow> (Inr t, w')) =
   (case r of
      Inl e \<Rightarrow> Inl e
    | Inr (NotOk status errorData) \<Rightarrow> Inl (f status errorData)
    | Inr (Ok (Inl e)) \<Rightarrow> Inl e
    | Inr (Ok (Inr t)) \<Rightarrow> Inr t, w')"
  by (simp split: sum.split response.split)

lemma transcribeSingle_unfold:
  "transcribeSingle srv chunk mime st key w =
     (case srv (sent w) (whisper_request chunk mime st key) of
        Inl e \<Rightarrow> Inl e
      | Inr (NotOk status errorData) \<Rightarrow>
          Inl (Error (or_else (case errorData of None \<Rightarrow> None | Some m \<Rightarrow> m)
                 (''Transcription failed with status '' @ string_of_nat status)))
      | Inr (Ok (Inl e)) \<Rightarrow> Inl e
      | Inr (Ok (Inr t)) \<Rightarrow> Inr t,
      w\<lparr>sent := sent w @ [whisper_request chunk mime st key]\<rparr>)"
  unfolding transcribeSingle_def fetch_def Let_def whisper_request_def
    whisper_headers whisper_language case_prod_conv
  by (rule response_cases)

lemma transcribeSingle_sent:
  "snd (transcribeSingle srv chunk mime st key w) =
     w\<lparr>sent := sent w @ [whisper_request chunk mime st key]\<rparr>"
  by (simp add: transcribeSingle_unfold)

lemma transcribeSingle_ok:
  "srv (sent w) (whisper_request chunk mime st key) = Inr (Ok (Inr t)) \<Longrightarrow>
   fst (transcribeSingle srv chunk mime st key w) = Inr t"
  by (simp add: transcribeSingle_unfold)

lemma transcribeSingle_fst_cong:
  "sent w = sent w' \<Longrightarrow>
   fst (transcribeSingle srv chunk mime st key w) = fst (transcribeSingle srv chunk mime st key w')"
  by (simp add: transcribeSingle_unfold)

text \<open>The progress callback leaves the log of requests and the storage alone.\<close>

lemma progress_sent:
  "sent (case cb of Some f \<Rightarrow> w\<lparr>display := f m (display w)\<rparr> | None \<Rightarrow> w) = sent w"
  by (cases cb) simp_all

lemma progress_store:
  "store (case cb of Some f \<Rightarrow> w\<lparr>display := f m (display w)\<rparr> | None \<Rightarrow> w) = store w"
  by (cases cb) simp_all

lemma loop_success:
  assumes "length ts = length cs"
    and "\<forall>j<length cs.
           srv (sent w @ map (\<lambda>c. whisper_request c mime st key) (take j cs))
             (whisper_request (cs ! j) mime st key) = Inr (Ok (Inr (ts ! j)))"
  shows "\<exists>w'. transcribeChunked_loop srv mime st key cb len cs i acc w = (Inr (acc @ ts), w')
           \<and> sent w' = sent w @ map (\<lambda>c. whisper_request c mime st key) cs
           \<and> store w' = store w"
  using assms
proof (induction cs arbitrary: ts i acc w)
  case Nil
  then show ?case by simp
next
  case (Cons c cs)
  let ?rq = "\<lambda>c. whisper_request c mime st key"
  let ?w1 = "case cb of
               Some f \<Rightarrow>
                 w\<lparr>display :=
                     f (''Processing chunk '' @ string_of_nat (i + 1) @ ''/''
                        @ string_of_nat len @ ''...'') (display w)\<rparr>
             | None \<Rightarrow> w"
  from Cons.prems(1) obtain t ts' where ts: "ts = t # ts'" and len: "length ts' = length cs"
    by (cases ts) auto
  have s1: "sent ?w1 = sent w" and st1: "store ?w1 = store w"
    by (rule progress_sent, rule progress_store)
  from Cons.prems(2) have "srv (sent w @ map ?rq (take 0 (c # cs))) (?rq ((c # cs) ! 0))
      = Inr (Ok (Inr (ts ! 0)))"
    by blast
  then have first: "srv (sent ?w1) (?rq c) = Inr (Ok (Inr t))"
    by (simp add: ts s1)
  define w2 where "w2 = ?w1\<lparr>sent := sent ?w1 @ [?rq c]\<rparr>"
  have single: "transcribeSingle srv c mime st key ?w1 = (Inr t, w2)"
    using first by (simp add: transcribeSingle_unfold w2_def)
  have rest: "\<forall>j<length cs. srv (sent w2 @ map ?rq (take j cs)) (?rq (cs ! j))
      = Inr (Ok (Inr (ts' ! j)))"
  proof (intro allI impI)
    fix j assume "j < length cs"
    then have "srv (sent w @ map ?rq (take (Suc j) (c # cs))) (?rq ((c # cs) ! Suc j))
      = Inr (Ok (Inr (ts ! Suc j)))"
      using Cons.prems(2) by (metis Suc_less_eq length_Cons)
    then show "srv (sent w2 @ map ?rq (take j cs)) (?rq (cs ! j)) = Inr (Ok (Inr (ts' ! j)))"
      by (simp add: ts w2_def s1)
  qed
  from Cons.IH [OF len rest, of "Suc i" "acc @ [t]"]
  obtain w' where w': "transcribeChunked_loop srv mime st key cb len cs (Suc i) (acc @ [t]) w2
        = (Inr ((acc @ [t]) @ ts'), w')"
      "sent w' = sent w2 @ map ?rq cs" "store w' = store w2"
    by blast
  have "transcribeChunked_loop srv mime st key cb len (c # cs) i acc w = (Inr (acc @ ts), w')"
    using single w'(1) by (simp add: ts)
  moreover have "sent w' = sent w @ map ?rq (c # cs)"
    using w'(2) by (simp add: w2_def s1)
  moreover have "store w' = store w"
    using w'(3) by (simp add: w2_def st1)
  ultimately show ?case by blast
qed



lemma loop_failure:
  assumes "k < length cs"
    and "\<forall>j<k. \<exists>t.
           srv (sent w @ map (\<lambda>c. whisper_request c mime st key) (take j cs))
             (whisper_request (cs ! j) mime st key) = Inr (Ok (Inr t))"
    and "\<forall>w'. sent w' = sent w @ map (\<lambda>c. whisper_request c mime st key) (take k cs) \<longrightarrow>
           fst (transcribeSingle srv (cs ! k) mime st key w') = Inl e"
  shows "\<exists>w'. transcribeChunked_loop srv mime st key cb len cs i acc w = (Inl e, w')
           \<and> sent w' = sent w @ map (\<lambda>c. whisper_request c mime st key) (take (Suc k) cs)
           \<and> store w' = store w"
  using assms
proof (induction cs arbitrary: k i acc w)
  case Nil
  then show ?case by simp
next
  case (Cons c cs)
  let ?rq = "\<lambda>c. whisper_request c mime st key"
  let ?w1 = "case cb of
               Some f \<Rightarrow>
                 w\<lparr>display :=
                     f (''Processing chunk '' @ string_of_nat (i + 1) @ ''/''
                        @ string_of_nat len @ ''...'') (display w)\<rparr>
             | None \<Rightarrow> w"
  have s1: "sent ?w1 = sent w" and st1: "store ?w1 = store w"
    by (rule progress_sent, rule progress_store)
  define w2 where "w2 = ?w1\<lparr>sent := sent ?w1 @ [?rq c]\<rparr>"
  have snd_single: "snd (transcribeSingle srv c mime st key ?w1) = w2"
    by (simp add: transcribeSingle_sent w2_def)
  show ?case
  proof (cases k)
    case 0
    have "fst (transcribeSingle srv c mime st key ?w1) = Inl e"
      using Cons.prems(3) s1 by (simp add: 0)
    then have "transcribeSingle srv c mime st key ?w1 = (Inl e, w2)"
      using snd_single by (simp add: prod_eq_iff)
    then have "transcribeChunked_loop srv mime st key cb len (c # cs) i acc w = (Inl e, w2)"
      by simp
    moreover have "sent w2 = sent w @ map ?rq (take (Suc k) (c # cs))"
      by (simp add: w2_def s1 0)
    moreover have "store w2 = store w" by (simp add: w2_def st1)
    ultimately show ?thesis by blast
  next
    case (Suc k')
    from Cons.prems(2) Suc obtain t where
      "srv (sent w @ map ?rq (take 0 (c # cs))) (?rq ((c # cs) ! 0)) = Inr (Ok (Inr t))"
      by blast
    then have "srv (sent ?w1) (?rq c) = Inr (Ok (Inr t))" by (simp add: s1)
    then have single: "transcribeSingle srv c mime st key ?w1 = (Inr t, w2)"
      by (simp add: transcribeSingle_unfold w2_def)
    have k': "k' < length cs" using Cons.prems(1) Suc by simp
    have before: "\<forall>j<k'. \<exists>t. srv (sent w2 @ map ?rq (take j cs)) (?rq (cs ! j))
        = Inr (Ok (Inr t))"
    proof (intro allI impI)
      fix j assume "j < k'"
      then have "Suc j < k" using Suc by simp
      then obtain t where
        "srv (sent w @ map ?rq (take (Suc j) (c # cs))) (?rq ((c # cs) ! Suc j))
           = Inr (Ok (Inr t))"
        using Cons.prems(2) by blast
      then show "\<exists>t. srv (sent w2 @ map ?rq (take j cs)) (?rq (cs ! j)) = Inr (Ok (Inr t))"
        by (simp add: w2_def s1)
    qed
    have fails: "\<forall>w'. sent w' = sent w2 @ map ?rq (take k' cs) \<longrightarrow>
        fst (transcribeSingle srv (cs ! k') mime st key w') = Inl e"
      using Cons.prems(3) by (simp add: Suc w2_def s1)
    from Cons.IH [OF k' before fails, of "Suc i" "acc @ [t]"]
    obtain w' where w': "transcribeChunked_loop srv mime st key cb len cs (Suc i) (acc @ [t]) w2
          = (Inl e, w')"
        "sent w' = sent w2 @ map ?rq (take (Suc k') cs)" "store w' = store w2"
      by blast
    have "transcribeChunked_loop srv mime st key cb len (c # cs) i acc w = (Inl e, w')"
      using single w'(1) by simp
    moreover have "sent w' = sent w @ map ?rq (take (Suc k) (c # cs))"
      using w'(2) by (simp add: w2_def s1 Suc)
    moreover have "store w' = store w"
      using w'(3) by (simp add: w2_def st1)
    ultimately show ?thesis by blast
  qed
qed

lemma MAX_FILE_SIZE_pos: "0 < MAX_FILE_SIZE"
  by (simp add: MAX_FILE_SIZE_def)

lemma splitBuffer_slices: "0 < chunkSize \<Longrightarrow> splitBuffer buf chunkSize = Some (slices chunkSize buf)"
  by (simp add: splitBuffer_def splitBuffer_loop_slices)

lemma splitBuffer_thirty_MiB:
  "splitBuffer thirty_MiB MAX_FILE_SIZE =
     Some [replicate (24 * 1024 * 1024) 0, replicate (6 * 1024 * 1024) 0]"
proof -
  have "slices 25165824 (replicate 31457280 (0::byte)) =
        replicate 25165824 0 # slices 25165824 (replicate 6291456 0)"
    by (subst slices.simps) simp
  also have "slices 25165824 (replicate 6291456 (0::byte)) =
        replicate 6291456 0 # slices 25165824 []"
    by (subst slices.simps) simp
  also have "slices 25165824 ([]::byte list) = []"
    by (subst slices.simps) simp
  finally show ?thesis
    by (simp add: splitBuffer_slices MAX_FILE_SIZE_def thirty_MiB_def)
qed

subsection \<open>The chunked path\<close>

text \<open>
  Claim C1.  A buffer longer than the ceiling of 24 MiB is cut into
  \<open>\<lceil>length / ceiling\<rceil>\<close> chunks; chunk \<open>i\<close> is the bytes from \<open>i * ceiling\<close> up to
  \<open>(i + 1) * ceiling\<close> (or to the end of the buffer), so the chunks are contiguous, do
  not overlap and concatenate to the buffer; none is empty or longer than the ceiling,
  and every chunk but the last has exactly the ceiling's size.  When the upstream
  answers the upload of each chunk, sent in chunk order, with a text, the call returns
  the texts joined by single spaces, in chunk order, and has sent exactly one upload
  per chunk.
\<close>

theorem transcribe_chunked:
  assumes "length buf > MAX_FILE_SIZE"
    and "provider st = OpenAI \<longrightarrow> truthy (getApiKey (store w))"
  shows "\<exists>chunks.
           splitBuffer buf MAX_FILE_SIZE = Some chunks
         \<and> int (length chunks) = \<lceil>real (length buf) / real MAX_FILE_SIZE\<rceil>
         \<and> concat chunks = buf
         \<and> (\<forall>i<length chunks.
               chunks ! i = take MAX_FILE_SIZE (drop (i * MAX_FILE_SIZE) buf)
             \<and> chunks ! i \<noteq> []
             \<and> length (chunks ! i) \<le> MAX_FILE_SIZE
             \<and> (Suc i < length chunks \<longrightarrow> length (chunks ! i) = MAX_FILE_SIZE))
         \<and> (\<forall>ts. length ts = length chunks
               \<and> (\<forall>j<length chunks.
                     srv (sent w @ map (\<lambda>c. whisper_request c mime st (getApiKey (store w)))
                                    (take j chunks))
                       (whisper_request (chunks ! j) mime st (getApiKey (store w)))
                     = Inr (Ok (Inr (ts ! j))))
               \<longrightarrow> (\<exists>w'. transcribe srv buf mime st cb w = Some (Inr (join '' '' ts), w')
                      \<and> sent w' = sent w @ map (\<lambda>c. whisper_request c mime st (getApiKey (store w)))
                                             chunks))"
proof -
  let ?cs = "slices MAX_FILE_SIZE buf"
  let ?key = "getApiKey (store w)"
  note pos = MAX_FILE_SIZE_pos
  have split: "splitBuffer buf MAX_FILE_SIZE = Some ?cs"
    using pos by (rule splitBuffer_slices)
  have count: "int (length ?cs) = \<lceil>real (length buf) / real MAX_FILE_SIZE\<rceil>"
    using pos by (simp add: length_slices ceiling_div_nat)
  have cover: "concat ?cs = buf"
    using pos by (rule concat_slices)
  have each: "\<forall>i<length ?cs.
               ?cs ! i = take MAX_FILE_SIZE (drop (i * MAX_FILE_SIZE) buf)
             \<and> ?cs ! i \<noteq> []
             \<and> length (?cs ! i) \<le> MAX_FILE_SIZE
             \<and> (Suc i < length ?cs \<longrightarrow> length (?cs ! i) = MAX_FILE_SIZE)"
  proof (intro allI impI conjI)
    fix i assume i: "i < length ?cs"
    show "?cs ! i = take MAX_FILE_SIZE (drop (i * MAX_FILE_SIZE) buf)"
      using pos i by (rule nth_slices)
    show "?cs ! i \<noteq> []"
      using pos i by (rule slices_nonempty)
    show "length (?cs ! i) \<le> MAX_FILE_SIZE"
      using pos i by (rule slices_length_le)
    show "length (?cs ! i) = MAX_FILE_SIZE" if "Suc i < length ?cs"
      using pos that by (rule slices_full)
  qed
  have joined: "\<exists>w'. transcribe srv buf mime st cb w = Some (Inr (join '' '' ts), w')
                      \<and> sent w' = sent w @ map (\<lambda>c. whisper_request c mime st ?key) ?cs"
    if len: "length ts = length ?cs"
      and ok: "\<forall>j<length ?cs.
                 srv (sent w @ map (\<lambda>c. whisper_request c mime st ?key) (take j ?cs))
                   (whisper_request (?cs ! j) mime st ?key) = Inr (Ok (Inr (ts ! j)))"
    for ts
  proof -
    from loop_success [OF len ok, of cb "length ?cs" 0 "[]"]
    obtain w' where w':
      "transcribeChunked_loop srv mime st ?key cb (length ?cs) ?cs 0 [] w = (Inr ts, w')"
      "sent w' = sent w @ map (\<lambda>c. whisper_request c mime st ?key) ?cs"
      by auto
    have "transcribe srv buf mime st cb w = Some (Inr (join '' '' ts), w')"
      using assms w'(1) by (auto simp: transcribe_def transcribeChunked_def split Let_def)
    with w'(2) show ?thesis by blast
  qed
  show ?thesis
    using split count cover each joined by blast
qed


theorem transcribe_chunked_witness:
  "length thirty_MiB > MAX_FILE_SIZE
   \<and> (\<exists>chunks. splitBuffer thirty_MiB MAX_FILE_SIZE = Some chunks
         \<and> map length chunks = [24 * 1024 * 1024, 6 * 1024 * 1024])
   \<and> (\<exists>w'. transcribe foo_bar_server thirty_MiB ''audio/wav'' defaultSettings None
               world_with_key = Some (Inr ''foo bar'', w')
         \<and> length (sent w') = 2)"
proof -
  let ?key = "getApiKey (store world_with_key)"
  let ?rq = "\<lambda>c. whisper_request c ''audio/wav'' defaultSettings ?key"
  have big: "length thirty_MiB > MAX_FILE_SIZE"
    by (simp add: thirty_MiB_def MAX_FILE_SIZE_def)
  have key: "provider defaultSettings = OpenAI \<longrightarrow> truthy ?key"
    by (simp add: world_with_key_def fresh_storage_def getApiKey_def)
  from transcribe_chunked [OF big key, of foo_bar_server "''audio/wav''" None]
  obtain chunks where split: "splitBuffer thirty_MiB MAX_FILE_SIZE = Some chunks"
    and joined: "\<And>ts. length ts = length chunks \<Longrightarrow>
          (\<forall>j<length chunks.
              foo_bar_server (sent world_with_key @ map ?rq (take j chunks)) (?rq (chunks ! j))
                = Inr (Ok (Inr (ts ! j)))) \<Longrightarrow>
          \<exists>w'. transcribe foo_bar_server thirty_MiB ''audio/wav'' defaultSettings None
                 world_with_key = Some (Inr (join '' '' ts), w')
              \<and> sent w' = sent world_with_key @ map ?rq chunks"
    by blast
  have chunks: "chunks = [replicate (24 * 1024 * 1024) 0, replicate (6 * 1024 * 1024) 0]"
    using split by (simp add: splitBuffer_thirty_MiB)
  have answers: "\<forall>j<length chunks.
      foo_bar_server (sent world_with_key @ map ?rq (take j chunks)) (?rq (chunks ! j))
        = Inr (Ok (Inr ([''foo'', ''bar''] ! j)))"
  proof (intro allI impI)
    fix j assume "j < length chunks"
    then have "j = 0 \<or> j = 1" by (auto simp: chunks)
    then show "foo_bar_server (sent world_with_key @ map ?rq (take j chunks)) (?rq (chunks ! j))
        = Inr (Ok (Inr ([''foo'', ''bar''] ! j)))"
      by (auto simp: foo_bar_server_def world_with_key_def chunks)
  qed
  have "length [''foo'', ''bar''] = length chunks" by (simp add: chunks)
  from joined [OF this answers]
  obtain w' where "transcribe foo_bar_server thirty_MiB ''audio/wav'' defaultSettings None
       world_with_key = Some (Inr ''foo bar'', w')"
    and "sent w' = sent world_with_key @ map ?rq chunks"
    by auto
  then have "\<exists>w'. transcribe foo_bar_server thirty_MiB ''audio/wav'' defaultSettings None
               world_with_key = Some (Inr ''foo bar'', w') \<and> length (sent w') = 2"
    by (auto simp: chunks world_with_key_def)
  moreover have "\<exists>chunks. splitBuffer thirty_MiB MAX_FILE_SIZE = Some chunks
         \<and> map length chunks = [24 * 1024 * 1024, 6 * 1024 * 1024]"
    by (simp add: splitBuffer_thirty_MiB)
  ultimately show ?thesis using big by blast
qed


subsection \<open>The single path, the credential check and a failing chunk\<close>

text \<open>
  Claim C2.  For a buffer no longer than the ceiling of 24 MiB (the ceiling itself
  included), once the credential check has passed, the call sends exactly one request,
  the upload of the whole buffer, and nothing else changes; when the upstream answers
  it with status 2xx and a JSON body whose \<open>text\<close> is \<open>t\<close>, the call returns \<open>t\<close> as it
  is.
\<close>

theorem transcribe_single_call:
  assumes "length buf \<le> MAX_FILE_SIZE"
    and "provider st = OpenAI \<longrightarrow> truthy (getApiKey (store w))"
  shows "\<exists>r. transcribe srv buf mime st cb w =
               Some (r, w\<lparr>sent := sent w @ [whisper_request buf mime st (getApiKey (store w))]\<rparr>)
           \<and> (\<forall>t. srv (sent w) (whisper_request buf mime st (getApiKey (store w)))
                     = Inr (Ok (Inr t)) \<longrightarrow> r = Inr t)"
  using assms by (auto simp: transcribe_def Let_def transcribeSingle_unfold)

theorem transcribe_single_call_witness:
  "length ten_bytes \<le> MAX_FILE_SIZE
   \<and> transcribe hello_server ten_bytes ''audio/wav'' defaultSettings None world_with_key =
       Some (Inr ''hello world'',
             world_with_key\<lparr>sent :=
               [whisper_request ten_bytes ''audio/wav'' defaultSettings (Some ''sk-test'')]\<rparr>)
   \<and> file_name (case body (whisper_request ten_bytes ''audio/wav'' defaultSettings
                               (Some ''sk-test'')) of Multipart f \<Rightarrow> f) = ''audio.wav''"
proof -
  have small: "length ten_bytes \<le> MAX_FILE_SIZE"
    by (simp add: ten_bytes_def MAX_FILE_SIZE_def)
  have key: "getApiKey (store world_with_key) = Some ''sk-test''"
    by (simp add: world_with_key_def fresh_storage_def getApiKey_def)
  then have ok: "provider defaultSettings = OpenAI \<longrightarrow> truthy (getApiKey (store world_with_key))"
    by simp
  from transcribe_single_call [OF small ok, of hello_server "''audio/wav''" None]
  have "transcribe hello_server ten_bytes ''audio/wav'' defaultSettings None world_with_key =
       Some (Inr ''hello world'',
             world_with_key\<lparr>sent :=
               [whisper_request ten_bytes ''audio/wav'' defaultSettings (Some ''sk-test'')]\<rparr>)"
    by (auto simp: hello_server_def world_with_key_def getApiKey_def fresh_storage_def)
  moreover have "file_name (case body (whisper_request ten_bytes ''audio/wav'' defaultSettings
                               (Some ''sk-test'')) of Multipart f \<Rightarrow> f) = ''audio.wav''"
    by (simp add: whisper_request_def getExtension_def)
  ultimately show ?thesis using small by blast
qed

text \<open>
  Claim C4.  With the hosted provider selected and no credential in the secret store,
  the call fails with the missing-key error and leaves the host as it was: in
  particular the log of outbound requests is unchanged, for a buffer of any length.
\<close>

theorem transcribe_missing_key:
  assumes "provider st = OpenAI" and "getApiKey (store w) = None"
  shows "transcribe srv buf mime st cb w =
           Some (Inl (Error ''Please enter your OpenAI API key in Settings.''), w)"
  using assms by (simp add: transcribe_def)

theorem transcribe_missing_key_witness:
  "provider defaultSettings = OpenAI \<and> getApiKey (store world_without_key) = None
   \<and> transcribe hello_server thirty_MiB ''audio/wav'' defaultSettings None world_without_key =
       Some (Inl (Error ''Please enter your OpenAI API key in Settings.''), world_without_key)
   \<and> sent world_without_key = []"
proof -
  have p: "provider defaultSettings = OpenAI" by (simp add: defaultSettings_def)
  have k: "getApiKey (store world_without_key) = None"
    by (simp add: world_without_key_def fresh_storage_def getApiKey_def)
  show ?thesis
    using transcribe_missing_key [OF p k, of hello_server thirty_MiB "''audio/wav''" None] p k
    by (simp add: world_without_key_def)
qed

text \<open>
  Claim C3.  In the chunked path, when the uploads of the chunks before chunk \<open>k\<close> are
  answered with a text and the single-path call for chunk \<open>k\<close> fails with error \<open>e\<close>,
  the whole call fails with \<open>e\<close>: no joined text is returned.  The requests sent are the
  uploads of the chunks up to \<open>k\<close>, each once and in order: none for a later chunk, and
  none repeated.
\<close>

theorem transcribe_chunk_failure:
  assumes "length buf > MAX_FILE_SIZE"
    and "provider st = OpenAI \<longrightarrow> truthy (getApiKey (store w))"
    and "splitBuffer buf MAX_FILE_SIZE = Some chunks"
    and "k < length chunks"
    and "\<forall>j<k. \<exists>t.
           srv (sent w @ map (\<lambda>c. whisper_request c mime st (getApiKey (store w))) (take j chunks))
             (whisper_request (chunks ! j) mime st (getApiKey (store w))) = Inr (Ok (Inr t))"
    and "\<forall>w'. sent w' = sent w @ map (\<lambda>c. whisper_request c mime st (getApiKey (store w)))
                                     (take k chunks) \<longrightarrow>
           fst (transcribeSingle srv (chunks ! k) mime st (getApiKey (store w)) w') = Inl e"
  shows "\<exists>w'. transcribe srv buf mime st cb w = Some (Inl e, w')
           \<and> sent w' = sent w @ map (\<lambda>c. whisper_request c mime st (getApiKey (store w)))
                                  (take (Suc k) chunks)"
proof -
  from loop_failure [OF assms(4) assms(5) assms(6), of cb "length chunks" 0 "[]"]
  obtain w' where w':
    "transcribeChunked_loop srv mime st (getApiKey (store w)) cb (length chunks) chunks 0 [] w
       = (Inl e, w')"
    "sent w' = sent w @ map (\<lambda>c. whisper_request c mime st (getApiKey (store w)))
                          (take (Suc k) chunks)"
    by auto
  have "transcribe srv buf mime st cb w = Some (Inl e, w')"
    using assms(1,2,3) w'(1) by (auto simp: transcribe_def transcribeChunked_def Let_def)
  with w'(2) show ?thesis by blast
qed

theorem transcribe_chunk_failure_witness:
  "length thirty_MiB > MAX_FILE_SIZE
   \<and> (\<exists>w'. transcribe failing_server thirty_MiB ''audio/wav'' defaultSettings None
               world_with_key = Some (Inl (Error ''boom''), w')
         \<and> length (sent w') = 2)"
proof -
  let ?key = "getApiKey (store world_with_key)"
  let ?rq = "\<lambda>c. whisper_request c ''audio/wav'' defaultSettings ?key"
  let ?chunks = "[replicate (24 * 1024 * 1024) 0, replicate (6 * 1024 * 1024) (0::byte)]"
  have big: "length thirty_MiB > MAX_FILE_SIZE"
    by (simp add: thirty_MiB_def MAX_FILE_SIZE_def)
  have key: "provider defaultSettings = OpenAI \<longrightarrow> truthy ?key"
    by (simp add: world_with_key_def fresh_storage_def getApiKey_def)
  have split: "splitBuffer thirty_MiB MAX_FILE_SIZE = Some ?chunks"
    by (rule splitBuffer_thirty_MiB)
  have k: "(1::nat) < length ?chunks" by simp
  have before: "\<forall>j<1::nat. \<exists>t.
      failing_server (sent world_with_key @ map ?rq (take j ?chunks)) (?rq (?chunks ! j))
        = Inr (Ok (Inr t))"
    by (simp add: failing_server_def world_with_key_def)
  have fails: "\<forall>w'. sent w' = sent world_with_key @ map ?rq (take 1 ?chunks) \<longrightarrow>
      fst (transcribeSingle failing_server (?chunks ! 1) ''audio/wav'' defaultSettings ?key w')
        = Inl (Error ''boom'')"
    by (simp add: transcribeSingle_unfold failing_server_def)
  from transcribe_chunk_failure [OF big key split k before fails, of None]
  obtain w' where "transcribe failing_server thirty_MiB ''audio/wav'' defaultSettings None
       world_with_key = Some (Inl (Error ''boom''), w')"
    and "sent w' = sent world_with_key @ map ?rq (take (Suc 1) ?chunks)"
    by blast
  then have "\<exists>w'. transcribe failing_server thirty_MiB ''audio/wav'' defaultSettings None
               world_with_key = Some (Inl (Error ''boom''), w') \<and> length (sent w') = 2"
    by (auto simp: world_with_key_def)
  with big show ?thesis by blast
qed


subsection \<open>History\<close>

lemma getHistory_addToHistory:
  "getHistory (addToHistory e st) =
     e # (if length (getHistory st) < 10 then getHistory st else butlast (getHistory st))"
  by (simp add: addToHistory_def getHistory_def Let_def)

lemma getHistory_addToHistory_take:
  "length (getHistory st) \<le> 10 \<Longrightarrow> getHistory (addToHistory e st) = take 10 (e # getHistory st)"
  by (cases "length (getHistory st) < 10") (simp_all add: getHistory_addToHistory butlast_conv_take)

lemma getHistory_addAllToHistory:
  "length (getHistory st) \<le> 10 \<Longrightarrow>
   getHistory (addAllToHistory es st) = take 10 (rev es @ getHistory st)"
proof (induction es arbitrary: st)
  case Nil
  then show ?case by simp
next
  case (Cons e es)
  have step: "getHistory (addToHistory e st) = take 10 (e # getHistory st)"
    using Cons.prems by (rule getHistory_addToHistory_take)
  then have "length (getHistory (addToHistory e st)) \<le> 10" by simp
  then have "getHistory (addAllToHistory es (addToHistory e st)) =
      take 10 (rev es @ getHistory (addToHistory e st))"
    by (rule Cons.IH)
  also have "\<dots> = take 10 (rev es @ e # getHistory st)"
    unfolding step by (simp only: take_append take_take) (simp add: min_def)
  finally show ?case by simp
qed

text \<open>
  Claim C5.  \<open>addToHistory\<close> puts the new entry in front of the stored list and, when
  the list then has more than ten entries, drops exactly its last one.  So a history
  of at most ten entries stays at most ten, and inserting any sequence of entries into
  an empty history leaves the (at most) ten inserted last, the most recent first:
  exactly ten of them when more than ten were inserted.
\<close>

theorem addToHistory_most_recent_ten:
  "getHistory (addToHistory e st) =
     e # (if length (getHistory st) < 10 then getHistory st else butlast (getHistory st))
   \<and> (length (getHistory st) \<le> 10 \<longrightarrow> length (getHistory (addToHistory e st)) \<le> 10)
   \<and> (getHistory st = [] \<longrightarrow>
        getHistory (addAllToHistory es st) = take 10 (rev es)
        \<and> length (getHistory (addAllToHistory es st)) \<le> 10
        \<and> (length es > 10 \<longrightarrow> length (getHistory (addAllToHistory es st)) = 10))"
proof (intro conjI impI)
  show "getHistory (addToHistory e st) =
     e # (if length (getHistory st) < 10 then getHistory st else butlast (getHistory st))"
    by (rule getHistory_addToHistory)
  show "length (getHistory (addToHistory e st)) \<le> 10" if "length (getHistory st) \<le> 10"
    using that by (simp add: getHistory_addToHistory_take)
  assume empty: "getHistory st = []"
  then show all: "getHistory (addAllToHistory es st) = take 10 (rev es)"
    using getHistory_addAllToHistory [of st es] by simp
  show "length (getHistory (addAllToHistory es st)) \<le> 10"
    by (simp add: all)
  show "length (getHistory (addAllToHistory es st)) = 10" if "length es > 10"
    using that by (simp add: all)
qed

theorem addToHistory_most_recent_ten_witness:
  "getHistory fresh_storage = []
   \<and> length (map sample_entry [0, 1, 2, 3, 4, 5, 6, 7, 8, 9, 10, 11]) > 10
   \<and> map duration
        (getHistory
          (addAllToHistory (map sample_entry [0, 1, 2, 3, 4, 5, 6, 7, 8, 9, 10, 11])
             fresh_storage))
      = [11, 10, 9, 8, 7, 6, 5, 4, 3, 2]
   \<and> length (getHistory (addToHistory (sample_entry 12)
        (addAllToHistory (map sample_entry [0, 1, 2, 3, 4, 5, 6, 7, 8, 9, 10, 11])
             fresh_storage))) \<le> 10"
proof -
  let ?es = "map sample_entry [0, 1, 2, 3, 4, 5, 6, 7, 8, 9, 10, 11]"
  have empty: "getHistory fresh_storage = []"
    by (simp add: getHistory_def fresh_storage_def)
  have many: "length ?es > 10" by simp
  from addToHistory_most_recent_ten [of "sample_entry 0" fresh_storage ?es] empty
  have all: "getHistory (addAllToHistory ?es fresh_storage) = take 10 (rev ?es)"
    by blast
  have small: "length (getHistory (addAllToHistory ?es fresh_storage)) \<le> 10"
    unfolding all by simp
  from addToHistory_most_recent_ten
         [of "sample_entry 12" "addAllToHistory ?es fresh_storage" "[]"] small
  have "length (getHistory (addToHistory (sample_entry 12)
          (addAllToHistory ?es fresh_storage))) \<le> 10"
    by blast
  moreover have "map duration (getHistory (addAllToHistory ?es fresh_storage))
      = [11, 10, 9, 8, 7, 6, 5, 4, 3, 2]"
    unfolding all by (simp add: sample_entry_def)
  ultimately show ?thesis using empty many by blast
qed

subsection \<open>Upload extension\<close>

text \<open>
  Claim C8.  The upload extension is \<open>mp3\<close> when the MIME type contains \<open>mp3\<close> or
  \<open>mpeg\<close>; otherwise \<open>webm\<close> when it contains \<open>webm\<close>; otherwise \<open>wav\<close> when it contains
  \<open>wav\<close>; otherwise \<open>ogg\<close> when it contains \<open>ogg\<close>; and \<open>mp3\<close> when it contains none of
  them.
\<close>

theorem getExtension_priority:
  "getExtension mimeType =
     (if occurs_in ''mp3'' mimeType \<or> occurs_in ''mpeg'' mimeType then ''mp3''
      else if occurs_in ''webm'' mimeType then ''webm''
      else if occurs_in ''wav'' mimeType then ''wav''
      else if occurs_in ''ogg'' mimeType then ''ogg''
      else ''mp3'')"
  by (simp only: getExtension_def includes_iff)

theorem getExtension_priority_witness:
  "getExtension ''audio/mpeg'' = ''mp3''
   \<and> getExtension ''audio/webm;codecs=opus'' = ''webm''
   \<and> getExtension ''audio/wav'' = ''wav''
   \<and> getExtension ''audio/ogg'' = ''ogg''
   \<and> getExtension ''audio/flac'' = ''mp3''
   \<and> getExtension ''audio/ogg+wav+webm'' = ''webm''
   \<and> occurs_in ''ogg'' ''audio/ogg+wav+webm''"
  using getExtension_priority [of "''audio/mpeg''"]
    getExtension_priority [of "''audio/webm;codecs=opus''"]
    getExtension_priority [of "''audio/wav''"]
    getExtension_priority [of "''audio/ogg''"]
    getExtension_priority [of "''audio/flac''"]
    getExtension_priority [of "''audio/ogg+wav+webm''"]
  by (simp add: includes_iff [symmetric])

subsection \<open>Settings\<close>

text \<open>
  Claim C10.  Whatever is stored under the settings key, nothing at all included,
  \<open>getSettings\<close> returns a record with all five fields: each field is the stored one
  when the stored object has it, and the default otherwise.
\<close>

theorem getSettings_complete:
  "provider (getSettings st) =
     (case Option.bind (stored_settings st) provider_opt of Some v \<Rightarrow> v | None \<Rightarrow> OpenAI)
   \<and> localApiUrl (getSettings st) =
     (case Option.bind (stored_settings st) localApiUrl_opt of Some v \<Rightarrow> v
      | None \<Rightarrow> ''http://localhost:8000/v1/audio/transcriptions'')
   \<and> language (getSettings st) =
     (case Option.bind (stored_settings st) language_opt of Some v \<Rightarrow> v | None \<Rightarrow> [])
   \<and> enableCleanup (getSettings st) =
     (case Option.bind (stored_settings st) enableCleanup_opt of Some v \<Rightarrow> v | None \<Rightarrow> True)
   \<and> cleanupModel (getSettings st) =
     (case Option.bind (stored_settings st) cleanupModel_opt of Some v \<Rightarrow> v | None \<Rightarrow> Gpt41Nano)
   \<and> getSettings (st\<lparr>stored_settings := None\<rparr>) = defaultSettings
   \<and> getSettings (st\<lparr>stored_settings := Some emptySettings\<rparr>) = defaultSettings
   \<and> getSettings st =
       spread_settings defaultSettings
         (case stored_settings st of None \<Rightarrow> emptySettings | Some s \<Rightarrow> s)"
  by (cases "stored_settings st")
     (simp_all add: getSettings_def spread_settings_def defaultSettings_def emptySettings_def
        split: option.split)


subsection \<open>Cleanup client\<close>

lemma ceiling_three_halves:
  "\<lceil>(of_nat n :: 'a :: floor_ceiling) * (3 / 2)\<rceil> = int ((3 * n + 1) div 2)"
proof -
  define z where "z = (3 * n + 1) div 2"
  have lo: "3 * n \<le> 2 * z" and hi: "2 * z \<le> 3 * n + 1"
    unfolding z_def by arith+
  have "(of_nat (3 * n) :: 'a) \<le> of_nat (2 * z)"
    using lo by (simp only: of_nat_le_iff)
  then have a: "(of_nat n :: 'a) * (3 / 2) \<le> of_int (int z)"
    by (simp add: field_simps)
  have "(of_nat (2 * z) :: 'a) < of_nat (3 * n + 2)"
    using hi by (simp only: of_nat_less_iff)
  then have b: "of_int (int z) - 1 < (of_nat n :: 'a) * (3 / 2)"
    by (simp add: field_simps)
  show ?thesis
    unfolding z_def [symmetric] using b a by (rule ceiling_unique)
qed

lemma chat_response_cases:
  "(case r of
      Inl e \<Rightarrow> (Inl e, w')
    | Inr (NotOk status errorData) \<Rightarrow> (Inl (f status errorData), w')
    | Inr (Ok (Inl e)) \<Rightarrow> (Inl e, w')
    | Inr (Ok (Inr choices)) \<Rightarrow>
        (case choices of [] \<Rightarrow> (Inl t, w') | content # _ \<Rightarrow> (Inr content, w'))) =
   (case r of
      Inl e \<Rightarrow> Inl e
    | Inr (NotOk status errorData) \<Rightarrow> Inl (f status errorData)
    | Inr (Ok (Inl e)) \<Rightarrow> Inl e
    | Inr (Ok (Inr choices)) \<Rightarrow>
        (case choices of [] \<Rightarrow> Inl t | content # _ \<Rightarrow> Inr content), w')"
  by (simp split: sum.split response.split list.split)

lemma cleanupText_unfold:
  assumes "getApiKey (store w) = Some k" and "k \<noteq> []"
  shows "cleanupText srv rawText model_arg w =
     (case srv (sent w)
             (cleanup_request k (case model_arg of None \<Rightarrow> ''gpt-4o-mini'' | Some m \<Rightarrow> m)
                rawText) of
        Inl e \<Rightarrow> Inl e
      | Inr (NotOk status errorData) \<Rightarrow>
          Inl (Error (or_else (case errorData of None \<Rightarrow> None | Some m \<Rightarrow> m)
                 (''Cleanup failed with status '' @ string_of_nat status)))
      | Inr (Ok (Inl e)) \<Rightarrow> Inl e
      | Inr (Ok (Inr choices)) \<Rightarrow>
          (case choices of
             [] \<Rightarrow> Inl (TypeError ''Cannot read properties of undefined (reading 'message')'')
           | content # _ \<Rightarrow> Inr content),
      w\<lparr>sent := sent w @
         [cleanup_request k (case model_arg of None \<Rightarrow> ''gpt-4o-mini'' | Some m \<Rightarrow> m)
            rawText]\<rparr>)"
proof -
  have url: "baseUrl @ ''/chat/completions'' = ''https://api.openai.com/v1/chat/completions''"
    by (simp add: baseUrl_def)
  show ?thesis
    unfolding cleanupText_def fetch_def Let_def cleanup_request_def url assms(1)
      option.case if_not_P [OF assms(2)] case_prod_conv
    by (rule chat_response_cases)
qed

lemma cleanupText_no_key:
  "\<not> truthy (getApiKey (store w)) \<Longrightarrow>
   cleanupText srv rawText model_arg w =
     (Inl (Error ''OpenAI API key required for text cleanup''), w)"
  by (cases "getApiKey (store w)") (simp_all add: cleanupText_def)

text \<open>
  Claim C9.  With a credential stored, \<open>cleanupText\<close> sends exactly one request: a POST
  to the chat-completions endpoint whose JSON body has the fixed system instruction as
  first message and the raw transcript as user message, temperature 0.3 and a token
  budget of \<open>\<lceil>len * 1.5\<rceil> + 500\<close> for a transcript of length \<open>len\<close>, that is
  \<open>(3 * len + 1) div 2 + 500\<close>.  When the upstream answers with status 2xx and a
  non-empty list of choices, the call returns the content of the first choice as it is.
\<close>

theorem cleanupText_request:
  assumes "getApiKey (store w) = Some k" and "k \<noteq> []"
  shows "\<exists>r rq chat.
           cleanupText srv rawText model_arg w = (r, w\<lparr>sent := sent w @ [rq]\<rparr>)
         \<and> url rq = ''https://api.openai.com/v1/chat/completions''
         \<and> http_method rq = ''POST''
         \<and> body rq = JsonBody chat
         \<and> chat_model chat = (case model_arg of None \<Rightarrow> ''gpt-4o-mini'' | Some m \<Rightarrow> m)
         \<and> messages chat = [(''system'', cleanup_system_prompt), (''user'', rawText)]
         \<and> temperature chat = 3 / 10
         \<and> max_tokens chat = \<lceil>real (length rawText) * 1.5\<rceil> + 500
         \<and> max_tokens chat = int ((3 * length rawText + 1) div 2) + 500
         \<and> (\<forall>content rest.
               srv (sent w) rq = Inr (Ok (Inr (content # rest))) \<longrightarrow> r = Inr content)"
proof -
  let ?model = "case model_arg of None \<Rightarrow> ''gpt-4o-mini'' | Some m \<Rightarrow> m"
  let ?rq = "cleanup_request k ?model rawText"
  let ?chat = "\<lparr> chat_model = ?model,
                 messages = [(''system'', cleanup_system_prompt), (''user'', rawText)],
                 temperature = 3 / 10, max_tokens = cleanup_max_tokens rawText \<rparr>"
  have budget: "cleanup_max_tokens rawText = int ((3 * length rawText + 1) div 2) + 500"
    by (simp only: cleanup_max_tokens_def ceiling_three_halves)
  have "real (length rawText) * 1.5 = real (length rawText) * (3 / 2)" by simp
  then have budget_real: "cleanup_max_tokens rawText = \<lceil>real (length rawText) * 1.5\<rceil> + 500"
    by (simp only: budget ceiling_three_halves)
  have "cleanupText srv rawText model_arg w =
          (fst (cleanupText srv rawText model_arg w), w\<lparr>sent := sent w @ [?rq]\<rparr>)"
    by (simp add: cleanupText_unfold [OF assms])
  moreover have "\<forall>content rest. srv (sent w) ?rq = Inr (Ok (Inr (content # rest))) \<longrightarrow>
      fst (cleanupText srv rawText model_arg w) = Inr content"
    by (simp add: cleanupText_unfold [OF assms])
  moreover have "url ?rq = ''https://api.openai.com/v1/chat/completions''"
    "http_method ?rq = ''POST''" "body ?rq = JsonBody ?chat"
    by (simp_all add: cleanup_request_def)
  moreover have "chat_model ?chat = ?model"
    "messages ?chat = [(''system'', cleanup_system_prompt), (''user'', rawText)]"
    "temperature ?chat = 3 / 10"
    by simp_all
  moreover have "max_tokens ?chat = \<lceil>real (length rawText) * 1.5\<rceil> + 500"
    "max_tokens ?chat = int ((3 * length rawText + 1) div 2) + 500"
    using budget budget_real by simp_all
  ultimately show ?thesis by blast
qed

theorem cleanupText_request_witness:
  "getApiKey (store world_with_key) = Some ''sk-test''
   \<and> (\<exists>rq chat.
         cleanupText tidy_server ''um hello world'' (Some ''gpt-4.1-nano'') world_with_key
           = (Inr ''Hello, world.'', world_with_key\<lparr>sent := [rq]\<rparr>)
       \<and> body rq = JsonBody chat
       \<and> temperature chat = 3 / 10
       \<and> max_tokens chat = 521
       \<and> messages chat = [(''system'', cleanup_system_prompt), (''user'', ''um hello world'')])"
proof -
  have key: "getApiKey (store world_with_key) = Some ''sk-test''"
    by (simp add: world_with_key_def fresh_storage_def getApiKey_def)
  have ne: "''sk-test'' \<noteq> []" by simp
  from cleanupText_request [OF key ne, of tidy_server "''um hello world''" "Some ''gpt-4.1-nano''"]
  obtain r rq chat where
    run: "cleanupText tidy_server ''um hello world'' (Some ''gpt-4.1-nano'') world_with_key
            = (r, world_with_key\<lparr>sent := sent world_with_key @ [rq]\<rparr>)"
    and fields: "body rq = JsonBody chat" "temperature chat = 3 / 10"
      "max_tokens chat = int ((3 * length ''um hello world'' + 1) div 2) + 500"
      "messages chat = [(''system'', cleanup_system_prompt), (''user'', ''um hello world'')]"
    and first: "\<forall>content rest.
       tidy_server (sent world_with_key) rq = Inr (Ok (Inr (content # rest))) \<longrightarrow> r = Inr content"
    by blast
  have "r = Inr ''Hello, world.''"
    using first by (simp add: tidy_server_def)
  moreover have "sent world_with_key = []" by (simp add: world_with_key_def)
  moreover have "max_tokens chat = 521" using fields(3) by simp
  ultimately show ?thesis using run fields key by auto
qed


subsection \<open>Orchestrator\<close>

lemma transcribeSingle_frame:
  "transcribeSingle srv chunk mime st key w = (r, w') \<Longrightarrow>
   display w' = display w \<and> store w' = store w"
  by (auto simp: transcribeSingle_unfold)

lemma loop_frame:
  "transcribeChunked_loop srv mime st key (Some post_progress) len cs i acc w = (r, w') \<Longrightarrow>
   store w' = store w
   \<and> warnings (display w') = warnings (display w)
   \<and> errors_shown (display w') = errors_shown (display w)
   \<and> (\<exists>msgs. posted (display w') = posted (display w) @ map TranscriptionProgress msgs)"
proof (induction cs arbitrary: i acc w)
  case Nil
  then have "w' = w" by simp
  moreover have "posted (display w) = posted (display w) @ map TranscriptionProgress []"
    by simp
  ultimately show ?case by blast
next
  case (Cons c cs)
  define m where "m = ''Processing chunk '' @ string_of_nat (i + 1) @ ''/''
                        @ string_of_nat len @ ''...''"
  define w1 where "w1 = w\<lparr>display := post_progress m (display w)\<rparr>"
  obtain res w2 where single: "transcribeSingle srv c mime st key w1 = (res, w2)"
    by (cases "transcribeSingle srv c mime st key w1")
  from transcribeSingle_frame [OF single]
  have d2: "display w2 = post_progress m (display w)" and s2: "store w2 = store w"
    by (simp_all add: w1_def)
  have p2: "posted (display w2) = posted (display w) @ [TranscriptionProgress m]"
    "warnings (display w2) = warnings (display w)"
    "errors_shown (display w2) = errors_shown (display w)"
    by (simp_all add: d2 post_progress_def)
  show ?case
  proof (cases res)
    case (Inl e)
    then have "w' = w2"
      using Cons.prems single by (simp add: w1_def m_def)
    moreover have "posted (display w2) = posted (display w) @ map TranscriptionProgress [m]"
      by (simp add: p2)
    ultimately show ?thesis using s2 p2(2,3) by blast
  next
    case (Inr t)
    then have "transcribeChunked_loop srv mime st key (Some post_progress) len cs (i + 1)
        (acc @ [t]) w2 = (r, w')"
      using Cons.prems single by (simp add: w1_def m_def)
    from Cons.IH [OF this] obtain msgs where
      "store w' = store w2" "warnings (display w') = warnings (display w2)"
      "errors_shown (display w') = errors_shown (display w2)"
      "posted (display w') = posted (display w2) @ map TranscriptionProgress msgs"
      by blast
    then have "store w' = store w" "warnings (display w') = warnings (display w)"
      "errors_shown (display w') = errors_shown (display w)"
      "posted (display w') = posted (display w) @ map TranscriptionProgress (m # msgs)"
      by (simp_all add: s2 p2)
    then show ?thesis by blast
  qed
qed

lemma transcribe_frame:
  assumes "transcribe srv buf mime st (Some post_progress) w = Some (r, w')"
  shows "store w' = store w
   \<and> warnings (display w') = warnings (display w)
   \<and> errors_shown (display w') = errors_shown (display w)
   \<and> (\<exists>msgs. posted (display w') = posted (display w) @ map TranscriptionProgress msgs)"
proof -
  have trivial: "posted (display w) = posted (display w) @ map TranscriptionProgress []"
    by simp
  consider (nokey) "provider st = OpenAI \<and> \<not> truthy (getApiKey (store w))"
    | (chunked) "\<not> (provider st = OpenAI \<and> \<not> truthy (getApiKey (store w)))"
        "length buf > MAX_FILE_SIZE"
    | (single) "\<not> (provider st = OpenAI \<and> \<not> truthy (getApiKey (store w)))"
        "\<not> length buf > MAX_FILE_SIZE"
    by blast
  then show ?thesis
  proof cases
    case nokey
    then have "w' = w" using assms by (simp add: transcribe_def)
    then show ?thesis using trivial by blast
  next
    case chunked
    let ?cs = "slices MAX_FILE_SIZE buf"
    obtain res w2 where loop:
      "transcribeChunked_loop srv mime st (getApiKey (store w)) (Some post_progress)
         (length ?cs) ?cs 0 [] w = (res, w2)"
      by (cases "transcribeChunked_loop srv mime st (getApiKey (store w)) (Some post_progress)
         (length ?cs) ?cs 0 [] w")
    have "w' = w2"
      using assms chunked loop
      by (cases res)
         (auto simp: transcribe_def transcribeChunked_def Let_def
            splitBuffer_slices [OF MAX_FILE_SIZE_pos])
    with loop_frame [OF loop] show ?thesis by simp
  next
    case single
    then have "transcribeSingle srv buf mime st (getApiKey (store w)) w = (r, w')"
      using assms by (auto simp: transcribe_def Let_def)
    from transcribeSingle_frame [OF this] show ?thesis using trivial by simp
  qed
qed

lemma transcribe_returns: "\<exists>r w'. transcribe srv buf mime st cb w = Some (r, w')"
proof -
  let ?cs = "slices MAX_FILE_SIZE buf"
  obtain res w2 where
    "transcribeChunked_loop srv mime st (getApiKey (store w)) cb (length ?cs) ?cs 0 [] w
       = (res, w2)"
    by (cases "transcribeChunked_loop srv mime st (getApiKey (store w)) cb (length ?cs) ?cs 0 [] w")
  then show ?thesis
    by (cases res)
       (auto simp: transcribe_def transcribeChunked_def Let_def
          splitBuffer_slices [OF MAX_FILE_SIZE_pos])
qed

lemma cleanupText_frame:
  "cleanupText srv rawText model_arg w = (r, w') \<Longrightarrow> display w' = display w \<and> store w' = store w"
proof (cases "getApiKey (store w)")
  case None
  assume "cleanupText srv rawText model_arg w = (r, w')"
  then show ?thesis using None by (simp add: cleanupText_no_key)
next
  case (Some k)
  assume run: "cleanupText srv rawText model_arg w = (r, w')"
  show ?thesis
  proof (cases "k = []")
    case True
    then show ?thesis using run Some by (simp add: cleanupText_no_key)
  next
    case False
    then show ?thesis using run by (auto simp: cleanupText_unfold [OF Some False])
  qed
qed


lemma cleanup_failure_completes:
  assumes "enableCleanup (getSettings (store w0))"
    and "provider (getSettings (store w0)) = OpenAI"
    and "transcribe whisper (decode audio) mimeType (getSettings (store w0))
           (Some post_progress)
           (postMessage (TranscriptionProgress ''Transcribing audio...'')
              (postMessage TranscriptionStart w0))
         = Some (Inr rawText, w3)"
    and "fst (cleanupText openai rawText
                (Some (cleanup_model_name (cleanupModel (getSettings (store w0)))))
                (postMessage (TranscriptionProgress ''Cleaning up text...'') w3)) = Inl e"
  shows "\<exists>w' msgs.
           handleTranscription whisper openai decode audio mimeType w0 = Some w'
         \<and> posted (display w') =
             posted (display w0)
             @ [TranscriptionStart, TranscriptionProgress ''Transcribing audio...'']
             @ map TranscriptionProgress msgs
             @ [TranscriptionProgress ''Cleaning up text...'',
                TranscriptionComplete rawText None]
         \<and> warnings (display w') =
             warnings (display w0) @ [''Text cleanup failed. Showing original transcription.'']
         \<and> errors_shown (display w') = errors_shown (display w0)
         \<and> getRecordingSession (store w') = None"
proof -
  let ?st = "getSettings (store w0)"
  let ?w2 = "postMessage (TranscriptionProgress ''Transcribing audio...'')
              (postMessage TranscriptionStart w0)"
  let ?w4 = "postMessage (TranscriptionProgress ''Cleaning up text...'') w3"
  let ?model = "Some (cleanup_model_name (cleanupModel ?st))"
  let ?warn = "''Text cleanup failed. Showing original transcription.''"
  have st1: "getSettings (store (postMessage TranscriptionStart w0)) = ?st"
    by (simp add: postMessage_def)
  from transcribe_frame [OF assms(3)] obtain msgs where f3:
    "store w3 = store ?w2" "warnings (display w3) = warnings (display ?w2)"
    "errors_shown (display w3) = errors_shown (display ?w2)"
    "posted (display w3) = posted (display ?w2) @ map TranscriptionProgress msgs"
    by blast
  obtain w5 where clean: "cleanupText openai rawText ?model ?w4 = (Inl e, w5)"
    using assms(4) by (cases "cleanupText openai rawText ?model ?w4") simp
  from cleanupText_frame [OF clean] have f5: "display w5 = display ?w4" "store w5 = store ?w4"
    by simp_all
  define w' where
    "w' = (postMessage (TranscriptionComplete rawText None) (showWarningMessage ?warn w5))
            \<lparr>store := saveRecordingSession None
               (store (postMessage (TranscriptionComplete rawText None)
                         (showWarningMessage ?warn w5)))\<rparr>"
  have run: "handleTranscription whisper openai decode audio mimeType w0 = Some w'"
    unfolding handleTranscription_def Let_def st1
    by (simp add: assms(1,2,3) clean w'_def)
  have "posted (display w') =
          posted (display w0)
          @ [TranscriptionStart, TranscriptionProgress ''Transcribing audio...'']
          @ map TranscriptionProgress msgs
          @ [TranscriptionProgress ''Cleaning up text...'', TranscriptionComplete rawText None]"
    by (simp add: w'_def postMessage_def showWarningMessage_def f5 f3)
  moreover have "warnings (display w') = warnings (display w0) @ [?warn]"
    by (simp add: w'_def postMessage_def showWarningMessage_def f5 f3)
  moreover have "errors_shown (display w') = errors_shown (display w0)"
    by (simp add: w'_def postMessage_def showWarningMessage_def f5 f3)
  moreover have "getRecordingSession (store w') = None"
    by (simp add: w'_def getRecordingSession_def saveRecordingSession_def)
  ultimately show ?thesis using run by blast
qed


lemma handleTranscription_outcome:
  "\<exists>w'. handleTranscription whisper openai decode audio mimeType w0 = Some w'
      \<and> (case transcribe whisper (decode audio) mimeType (getSettings (store w0))
                 (Some post_progress)
                 (postMessage (TranscriptionProgress ''Transcribing audio...'')
                    (postMessage TranscriptionStart w0)) of
            None \<Rightarrow> False
          | Some (Inl err, w3) \<Rightarrow>
              errors_shown (display w') = errors_shown (display w0) @ [message err]
              \<and> last (posted (display w')) = TranscriptionError (message err)
          | Some (Inr rawText, w3) \<Rightarrow>
              errors_shown (display w') = errors_shown (display w0)
              \<and> (\<exists>cleaned. last (posted (display w')) = TranscriptionComplete rawText cleaned))"
proof -
  let ?st = "getSettings (store w0)"
  let ?w2 = "postMessage (TranscriptionProgress ''Transcribing audio...'')
              (postMessage TranscriptionStart w0)"
  have st1: "getSettings (store (postMessage TranscriptionStart w0)) = ?st"
    by (simp add: postMessage_def)
  have e2: "errors_shown (display ?w2) = errors_shown (display w0)"
    by (simp add: postMessage_def)
  obtain r w3 where tr:
    "transcribe whisper (decode audio) mimeType ?st (Some post_progress) ?w2 = Some (r, w3)"
    using transcribe_returns by blast
  from transcribe_frame [OF tr] have e3: "errors_shown (display w3) = errors_shown (display w0)"
    by (simp add: e2)
  show ?thesis
  proof (cases r)
    case (Inl err)
    define w' where
      "w' = showErrorMessage (message err) (postMessage (TranscriptionError (message err)) w3)"
    have run: "handleTranscription whisper openai decode audio mimeType w0 = Some w'"
      unfolding handleTranscription_def Let_def st1 by (simp add: tr Inl w'_def)
    have "errors_shown (display w') = errors_shown (display w0) @ [message err]"
      "last (posted (display w')) = TranscriptionError (message err)"
      by (simp_all add: w'_def showErrorMessage_def postMessage_def e3)
    with run show ?thesis by (simp add: tr Inl)
  next
    case (Inr rawText)
    let ?w4 = "postMessage (TranscriptionProgress ''Cleaning up text...'') w3"
    let ?model = "Some (cleanup_model_name (cleanupModel ?st))"
    obtain c w5 where c5: "cleanupText openai rawText ?model ?w4 = (c, w5)"
      by (cases "cleanupText openai rawText ?model ?w4")
    from cleanupText_frame [OF c5] have e5: "errors_shown (display w5) = errors_shown (display w0)"
      by (simp add: postMessage_def e3)
    have "\<exists>w' cleaned. handleTranscription whisper openai decode audio mimeType w0 = Some w'
        \<and> errors_shown (display w') = errors_shown (display w0)
        \<and> last (posted (display w')) = TranscriptionComplete rawText cleaned"
    proof (cases "enableCleanup ?st \<and> provider ?st = OpenAI")
      case False
      define w' where
        "w' = (postMessage (TranscriptionComplete rawText None) w3)
                \<lparr>store := saveRecordingSession None
                   (store (postMessage (TranscriptionComplete rawText None) w3))\<rparr>"
      from False have off: "(enableCleanup ?st \<and> provider ?st = OpenAI) = False"
        by simp
      have "handleTranscription whisper openai decode audio mimeType w0 = Some w'"
        unfolding handleTranscription_def Let_def st1 off
        by (simp add: tr Inr w'_def)
      moreover have "errors_shown (display w') = errors_shown (display w0)"
        "last (posted (display w')) = TranscriptionComplete rawText None"
        by (simp_all add: w'_def postMessage_def e3)
      ultimately show ?thesis by blast
    next
      case True
      show ?thesis
      proof (cases c)
        case (Inl err)
        define w' where
          "w' = (postMessage (TranscriptionComplete rawText None)
                   (showWarningMessage
                      ''Text cleanup failed. Showing original transcription.'' w5))
                  \<lparr>store := saveRecordingSession None
                     (store (postMessage (TranscriptionComplete rawText None)
                        (showWarningMessage
                           ''Text cleanup failed. Showing original transcription.'' w5)))\<rparr>"
        have "handleTranscription whisper openai decode audio mimeType w0 = Some w'"
          unfolding handleTranscription_def Let_def st1
          by (simp add: tr Inr c5 Inl w'_def True)
        moreover have "errors_shown (display w') = errors_shown (display w0)"
          "last (posted (display w')) = TranscriptionComplete rawText None"
          by (simp_all add: w'_def postMessage_def showWarningMessage_def e5)
        ultimately show ?thesis by blast
      next
        case (Inr cleaned)
        define w' where
          "w' = (postMessage (TranscriptionComplete rawText (Some cleaned)) w5)
                  \<lparr>store := saveRecordingSession None
                     (store (postMessage (TranscriptionComplete rawText (Some cleaned)) w5))\<rparr>"
        have "handleTranscription whisper openai decode audio mimeType w0 = Some w'"
          unfolding handleTranscription_def Let_def st1
          by (simp add: tr \<open>r = Inr rawText\<close> c5 Inr w'_def True)
        moreover have "errors_shown (display w') = errors_shown (display w0)"
          "last (posted (display w')) = TranscriptionComplete rawText (Some cleaned)"
          by (simp_all add: w'_def postMessage_def e5)
        ultimately show ?thesis by blast
      qed
    qed
    then show ?thesis by (auto simp: tr Inr)
  qed
qed

text \<open>
  Claim C6.  With cleanup enabled and the hosted provider selected, when the
  transcription succeeds with a raw text and the cleanup call then fails, the
  transcription flow still ends by posting \<open>transcriptionComplete\<close> with the raw text and
  no cleaned text; it shows the warning about the failed cleanup once, shows no error,
  posts no \<open>transcriptionError\<close> and clears the stored session snapshot.  In every run of
  the flow, an error popup appears exactly when \<open>transcribe\<close> itself fails.
\<close>

theorem cleanup_failure_not_fatal:
  "(\<exists>w'. handleTranscription whisper openai decode audio mimeType w0 = Some w'
      \<and> (case transcribe whisper (decode audio) mimeType (getSettings (store w0))
                 (Some post_progress)
                 (postMessage (TranscriptionProgress ''Transcribing audio...'')
                    (postMessage TranscriptionStart w0)) of
            None \<Rightarrow> False
          | Some (Inl err, w3) \<Rightarrow>
              errors_shown (display w') = errors_shown (display w0) @ [message err]
              \<and> last (posted (display w')) = TranscriptionError (message err)
          | Some (Inr rawText, w3) \<Rightarrow>
              errors_shown (display w') = errors_shown (display w0)
              \<and> (\<exists>cleaned. last (posted (display w')) = TranscriptionComplete rawText cleaned)))
   \<and> (enableCleanup (getSettings (store w0))
      \<and> provider (getSettings (store w0)) = OpenAI
      \<and> transcribe whisper (decode audio) mimeType (getSettings (store w0))
           (Some post_progress)
           (postMessage (TranscriptionProgress ''Transcribing audio...'')
              (postMessage TranscriptionStart w0))
         = Some (Inr rawText, w3)
      \<and> fst (cleanupText openai rawText
                (Some (cleanup_model_name (cleanupModel (getSettings (store w0)))))
                (postMessage (TranscriptionProgress ''Cleaning up text...'') w3)) = Inl e
      \<longrightarrow> (\<exists>w' msgs.
           handleTranscription whisper openai decode audio mimeType w0 = Some w'
         \<and> posted (display w') =
             posted (display w0)
             @ [TranscriptionStart, TranscriptionProgress ''Transcribing audio...'']
             @ map TranscriptionProgress msgs
             @ [TranscriptionProgress ''Cleaning up text...'',
                TranscriptionComplete rawText None]
         \<and> warnings (display w') =
             warnings (display w0) @ [''Text cleanup failed. Showing original transcription.'']
         \<and> errors_shown (display w') = errors_shown (display w0)
         \<and> getRecordingSession (store w') = None))"
  using handleTranscription_outcome [of whisper openai decode audio mimeType w0]
    cleanup_failure_completes [of w0 whisper decode audio mimeType rawText w3 openai e]
  by blast

theorem cleanup_failure_not_fatal_witness:
  "enableCleanup (getSettings (store world_with_session))
   \<and> provider (getSettings (store world_with_session)) = OpenAI
   \<and> getRecordingSession (store world_with_session) \<noteq> None
   \<and> (\<exists>w' msgs.
         handleTranscription hello_server down_server (\<lambda>a. ten_bytes) ''UklGRg=='' ''audio/wav''
           world_with_session = Some w'
       \<and> posted (display w') =
           [TranscriptionStart, TranscriptionProgress ''Transcribing audio...'']
           @ map TranscriptionProgress msgs
           @ [TranscriptionProgress ''Cleaning up text...'',
              TranscriptionComplete ''hello world'' None]
       \<and> warnings (display w') = [''Text cleanup failed. Showing original transcription.'']
       \<and> errors_shown (display w') = []
       \<and> getRecordingSession (store w') = None)"
proof -
  let ?w0 = world_with_session
  let ?w2 = "postMessage (TranscriptionProgress ''Transcribing audio...'')
              (postMessage TranscriptionStart ?w0)"
  let ?w3 = "?w2\<lparr>sent := sent ?w2 @
               [whisper_request ten_bytes ''audio/wav'' (getSettings (store ?w0))
                  (getApiKey (store ?w2))]\<rparr>"
  let ?w4 = "postMessage (TranscriptionProgress ''Cleaning up text...'') ?w3"
  have settings: "getSettings (store ?w0) = defaultSettings"
    by (simp add: world_with_session_def world_with_key_def fresh_storage_def getSettings_def
          spread_settings_def emptySettings_def defaultSettings_def)
  have on: "enableCleanup (getSettings (store ?w0))"
    and hosted: "provider (getSettings (store ?w0)) = OpenAI"
    by (simp_all add: settings defaultSettings_def)
  have model: "cleanup_model_name (cleanupModel (getSettings (store ?w0))) = ''gpt-4.1-nano''"
    by (simp add: settings defaultSettings_def)
  have key2: "getApiKey (store ?w2) = Some ''sk-test''"
    by (simp add: postMessage_def world_with_session_def world_with_key_def fresh_storage_def
          getApiKey_def)
  have small: "\<not> length ten_bytes > MAX_FILE_SIZE"
    by (simp add: ten_bytes_def MAX_FILE_SIZE_def)
  have tr: "transcribe hello_server ((\<lambda>a. ten_bytes) ''UklGRg=='') ''audio/wav''
              (getSettings (store ?w0)) (Some post_progress) ?w2 = Some (Inr ''hello world'', ?w3)"
    using small by (simp add: transcribe_def Let_def key2 transcribeSingle_unfold hello_server_def)
  have key4: "getApiKey (store ?w4) = Some ''sk-test''"
    by (simp add: postMessage_def world_with_session_def world_with_key_def fresh_storage_def
          getApiKey_def)
  have status: "string_of_nat 503 = ''503''"
    by (simp add: string_of_nat.simps digit_char_def)
  have ne: "''sk-test'' \<noteq> []" by simp
  have fails: "fst (cleanupText down_server ''hello world''
                (Some (cleanup_model_name (cleanupModel (getSettings (store ?w0))))) ?w4)
      = Inl (Error ''Cleanup failed with status 503'')"
    unfolding model by (simp add: cleanupText_unfold [OF key4 ne] down_server_def status)
  from cleanup_failure_not_fatal
         [of hello_server down_server "\<lambda>a. ten_bytes" "''UklGRg==''" "''audio/wav''" ?w0
             "''hello world''" ?w3 "Error ''Cleanup failed with status 503''"]
       on hosted tr fails
  obtain w' msgs where
    "handleTranscription hello_server down_server (\<lambda>a. ten_bytes) ''UklGRg=='' ''audio/wav''
       ?w0 = Some w'"
    "posted (display w') =
       posted (display ?w0)
       @ [TranscriptionStart, TranscriptionProgress ''Transcribing audio...'']
       @ map TranscriptionProgress msgs
       @ [TranscriptionProgress ''Cleaning up text...'',
          TranscriptionComplete ''hello world'' None]"
    "warnings (display w') =
       warnings (display ?w0) @ [''Text cleanup failed. Showing original transcription.'']"
    "errors_shown (display w') = errors_shown (display ?w0)"
    "getRecordingSession (store w') = None"
    by blast
  moreover have "display ?w0 = empty_ui"
    by (simp add: world_with_session_def world_with_key_def)
  moreover have "getRecordingSession (store ?w0) \<noteq> None"
    by (simp add: world_with_session_def getRecordingSession_def)
  ultimately show ?thesis using on hosted by (auto simp: empty_ui_def)
qed


subsection \<open>Cancelling a native recording\<close>

lemma fst_cancel: "fst (cancel (r, s)) = cleanup r"
  by (simp add: cancel_def Let_def)

lemma files_kill: "files (kill pid signal s) = files s"
  by (simp add: kill_def)

lemma undeletable_kill: "undeletable (kill pid signal s) = undeletable s"
  by (simp add: kill_def)

lemma snd_cancel:
  assumes "s1 = (case process r of Some pid \<Rightarrow> kill pid ''SIGKILL'' s | None \<Rightarrow> s)"
  shows "snd (cancel (r, s)) =
     (case tempFile r of
        Some path \<Rightarrow>
          (if path \<noteq> [] \<and> path \<in> files s1 \<and> path \<notin> undeletable s1
           then s1\<lparr>files := files s1 - {path}\<rparr> else s1)
      | None \<Rightarrow> s1)"
proof (cases "tempFile r")
  case None
  then show ?thesis by (simp add: cancel_def Let_def assms)
next
  case (Some path)
  have "snd (cancel (r, s)) =
      (if path \<noteq> [] \<and> existsSync path s1
       then (case unlinkSync path s1 of Inr s' \<Rightarrow> s' | Inl x \<Rightarrow> s1) else s1)"
    unfolding assms by (simp add: cancel_def Let_def Some)
  also have "\<dots> = (if path \<noteq> [] \<and> path \<in> files s1 \<and> path \<notin> undeletable s1
           then s1\<lparr>files := files s1 - {path}\<rparr> else s1)"
    by (simp add: existsSync_def unlinkSync_def)
  finally show ?thesis by (simp add: Some)
qed

lemma kill_step_frame:
  assumes "s1 = (case process r of Some pid \<Rightarrow> kill pid ''SIGKILL'' s | None \<Rightarrow> s)"
  shows "files s1 = files s" and "undeletable s1 = undeletable s"
  by (cases "process r"; simp add: assms files_kill undeletable_kill)+

lemma files_cancel_subset: "files (snd (cancel (r, s))) \<subseteq> files s"
proof -
  define s1 where "s1 = (case process r of Some pid \<Rightarrow> kill pid ''SIGKILL'' s | None \<Rightarrow> s)"
  show ?thesis
    unfolding snd_cancel [OF s1_def]
    by (cases "tempFile r") (auto simp: kill_step_frame [OF s1_def])
qed

lemma files_cancel_removed:
  assumes "tempFile r = Some path" and "path \<noteq> []" and "path \<notin> undeletable s"
  shows "path \<notin> files (snd (cancel (r, s)))"
proof -
  define s1 where "s1 = (case process r of Some pid \<Rightarrow> kill pid ''SIGKILL'' s | None \<Rightarrow> s)"
  show ?thesis
    unfolding snd_cancel [OF s1_def]
    using assms by (simp add: kill_step_frame [OF s1_def])
qed

lemma signals_cancel:
  assumes "process r = Some pid" and "pid \<in> running s"
  shows "signals (snd (cancel (r, s))) = signals s @ [(pid, ''SIGKILL'')]"
proof -
  define s1 where "s1 = (case process r of Some pid \<Rightarrow> kill pid ''SIGKILL'' s | None \<Rightarrow> s)"
  have "signals s1 = signals s @ [(pid, ''SIGKILL'')]"
    using assms by (simp add: s1_def kill_def)
  then show ?thesis
    unfolding snd_cancel [OF s1_def]
    by (cases "tempFile r") simp_all
qed

text \<open>
  Claim C7, as stated, fails: when the system refuses to remove the temporary file,
  \<open>cancel\<close> swallows the error and the file of the active recording is still on disk
  afterwards.
\<close>

theorem cancel_leaves_file_counterexample:
  "isRecording active_recorder
   \<and> tempFile active_recorder = Some ''/tmp/voice-transcriber-1735550000000.wav''
   \<and> ''/tmp/voice-transcriber-1735550000000.wav''
       \<in> files (snd (cancel (active_recorder, refusing_os)))"
proof -
  have "snd (cancel (active_recorder, refusing_os)) =
      (kill 4242 ''SIGKILL'' refusing_os)"
    by (subst snd_cancel [OF refl])
       (simp add: active_recorder_def refusing_os_def plain_os_def kill_def)
  then show ?thesis
    by (simp add: active_recorder_def refusing_os_def plain_os_def kill_def)
qed

text \<open>
  Claim C7, amended.  After \<open>cancel\<close> the service reports that it is not recording:
  \<open>getIsRecording\<close> is false, \<open>getElapsedTime\<close> is zero, and the process handle and the
  file path are reset, whether or not the recorder process had already exited; a
  recorder that is still running receives SIGKILL.  \<open>cancel\<close> creates no file, and the
  temporary file is no longer on disk provided that the system does not refuse its
  removal; a removal that fails is ignored.
\<close>

theorem cancel_resets:
  "getIsRecording (fst (cancel (r, s))) = False
   \<and> getElapsedTime (fst (cancel (r, s))) now = 0
   \<and> process (fst (cancel (r, s))) = None
   \<and> tempFile (fst (cancel (r, s))) = None
   \<and> files (snd (cancel (r, s))) \<subseteq> files s
   \<and> (\<forall>path. tempFile r = Some path \<and> path \<noteq> [] \<and> path \<notin> undeletable s
         \<longrightarrow> path \<notin> files (snd (cancel (r, s))))
   \<and> (\<forall>pid. process r = Some pid \<and> pid \<in> running s
         \<longrightarrow> signals (snd (cancel (r, s))) = signals s @ [(pid, ''SIGKILL'')])"
  using files_cancel_subset [of r s] files_cancel_removed [of r _ s] signals_cancel [of r _ s]
  by (simp add: fst_cancel cleanup_def getIsRecording_def getElapsedTime_def)

theorem cancel_resets_witness:
  "tempFile active_recorder = Some ''/tmp/voice-transcriber-1735550000000.wav''
   \<and> ''/tmp/voice-transcriber-1735550000000.wav'' \<notin> undeletable plain_os
   \<and> ''/tmp/voice-transcriber-1735550000000.wav'' \<in> files plain_os
   \<and> ''/tmp/voice-transcriber-1735550000000.wav''
       \<notin> files (snd (cancel (active_recorder, plain_os)))
   \<and> ''/tmp/voice-transcriber-1735550000000.wav''
       \<notin> files (snd (cancel (active_recorder, exited_os)))
   \<and> process active_recorder = Some 4242 \<and> 4242 \<in> running plain_os
   \<and> signals (snd (cancel (active_recorder, plain_os))) = [(4242, ''SIGKILL'')]
   \<and> getIsRecording (fst (cancel (active_recorder, exited_os))) = False
   \<and> getElapsedTime (fst (cancel (active_recorder, plain_os))) 1735550009999 = 0"
proof -
  let ?p = "''/tmp/voice-transcriber-1735550000000.wav''"
  have t: "tempFile active_recorder = Some ?p" and ne: "?p \<noteq> []"
    and pr: "process active_recorder = Some 4242"
    by (simp_all add: active_recorder_def)
  have u: "?p \<notin> undeletable plain_os" "?p \<notin> undeletable exited_os"
    and f: "?p \<in> files plain_os" and run: "4242 \<in> running plain_os"
    and sg: "signals plain_os = []"
    by (simp_all add: plain_os_def exited_os_def)
  from cancel_resets [of active_recorder plain_os 1735550009999] t ne u(1) pr run
  have a: "?p \<notin> files (snd (cancel (active_recorder, plain_os)))"
    "signals (snd (cancel (active_recorder, plain_os))) = signals plain_os @ [(4242, ''SIGKILL'')]"
    "getElapsedTime (fst (cancel (active_recorder, plain_os))) 1735550009999 = 0"
    by blast+
  from cancel_resets [of active_recorder exited_os 0] t ne u(2)
  have b: "?p \<notin> files (snd (cancel (active_recorder, exited_os)))"
    "getIsRecording (fst (cancel (active_recorder, exited_os))) = False"
    by blast+
  show ?thesis using a b t u(1) f pr run by (simp add: sg)
qed

end
